theory Spec2Isabelle
  imports Complex_Main
begin

section \<open>Numbers: numpy's float64, without rounding\<close>

text \<open>
  The arrays of \<^verbatim>\<open>qrake.py\<close> hold float64 values. They are modelled as the reals
  extended by \<open>+inf\<close>, \<open>-inf\<close> and \<open>nan\<close>, with IEEE's rules for the three special
  values and with overflow: a finite result beyond the largest double becomes an
  infinity. Rounding, underflow and the sign of zero are not modelled: a finite result
  in range is the exact real.
\<close>

datatype npfloat = Fin real | PInf | NInf | NaN

definition DBL_MAX :: real where
  "DBL_MAX = (2 - 1 / 2 ^ 52) * 2 ^ 1023"

definition ovf :: "real \<Rightarrow> npfloat" where
  "ovf r = (if DBL_MAX < r then PInf else if r < - DBL_MAX then NInf else Fin r)"

fun fneg :: "npfloat \<Rightarrow> npfloat" where
  "fneg NaN = NaN"
| "fneg PInf = NInf"
| "fneg NInf = PInf"
| "fneg (Fin a) = Fin (- a)"

fun fadd :: "npfloat \<Rightarrow> npfloat \<Rightarrow> npfloat" where
  "fadd NaN y = NaN"
| "fadd x NaN = NaN"
| "fadd PInf NInf = NaN"
| "fadd NInf PInf = NaN"
| "fadd PInf y = PInf"
| "fadd x PInf = PInf"
| "fadd NInf y = NInf"
| "fadd x NInf = NInf"
| "fadd (Fin a) (Fin b) = ovf (a + b)"

definition fsub :: "npfloat \<Rightarrow> npfloat \<Rightarrow> npfloat" where
  "fsub x y = fadd x (fneg y)"

text \<open>An infinity times \<open>x\<close>: \<open>nan\<close> for zero, otherwise the infinity with the product's sign.\<close>

definition inf_signed :: "bool \<Rightarrow> real \<Rightarrow> npfloat" where
  "inf_signed positive a =
     (if a = 0 then NaN else if (0 < a) = positive then PInf else NInf)"

fun fmul :: "npfloat \<Rightarrow> npfloat \<Rightarrow> npfloat" where
  "fmul NaN y = NaN"
| "fmul x NaN = NaN"
| "fmul PInf PInf = PInf"
| "fmul PInf NInf = NInf"
| "fmul NInf PInf = NInf"
| "fmul NInf NInf = PInf"
| "fmul PInf (Fin b) = inf_signed True b"
| "fmul NInf (Fin b) = inf_signed False b"
| "fmul (Fin a) PInf = inf_signed True a"
| "fmul (Fin a) NInf = inf_signed False a"
| "fmul (Fin a) (Fin b) = ovf (a * b)"

fun fdiv :: "npfloat \<Rightarrow> npfloat \<Rightarrow> npfloat" where
  "fdiv NaN y = NaN"
| "fdiv x NaN = NaN"
| "fdiv PInf PInf = NaN"
| "fdiv PInf NInf = NaN"
| "fdiv NInf PInf = NaN"
| "fdiv NInf NInf = NaN"
| "fdiv (Fin a) PInf = Fin 0"
| "fdiv (Fin a) NInf = Fin 0"
| "fdiv PInf (Fin b) = (if 0 \<le> b then PInf else NInf)"
| "fdiv NInf (Fin b) = (if 0 \<le> b then NInf else PInf)"
| "fdiv (Fin a) (Fin b) =
     (if b = 0 then (if a = 0 then NaN else if 0 < a then PInf else NInf)
      else ovf (a / b))"

fun fabs :: "npfloat \<Rightarrow> npfloat" where
  "fabs NaN = NaN"
| "fabs PInf = PInf"
| "fabs NInf = PInf"
| "fabs (Fin a) = Fin \<bar>a\<bar>"

fun fexp :: "npfloat \<Rightarrow> npfloat" where
  "fexp NaN = NaN"
| "fexp PInf = PInf"
| "fexp NInf = Fin 0"
| "fexp (Fin a) = ovf (exp a)"

text \<open>Comparisons: every comparison with \<open>nan\<close> is false.\<close>

fun flt :: "npfloat \<Rightarrow> npfloat \<Rightarrow> bool" where
  "flt NaN y = False"
| "flt x NaN = False"
| "flt PInf y = False"
| "flt x PInf = True"
| "flt x NInf = False"
| "flt NInf y = True"
| "flt (Fin a) (Fin b) = (a < b)"

definition fgt :: "npfloat \<Rightarrow> npfloat \<Rightarrow> bool" where
  "fgt x y = flt y x"

fun fle :: "npfloat \<Rightarrow> npfloat \<Rightarrow> bool" where
  "fle NaN y = False"
| "fle x NaN = False"
| "fle x PInf = True"
| "fle NInf y = True"
| "fle PInf y = False"
| "fle x NInf = False"
| "fle (Fin a) (Fin b) = (a \<le> b)"

fun isnan :: "npfloat \<Rightarrow> bool" where
  "isnan NaN = True"
| "isnan x = False"

fun isinf :: "npfloat \<Rightarrow> bool" where
  "isinf PInf = True"
| "isinf NInf = True"
| "isinf x = False"

text \<open>\<^verbatim>\<open>np.maximum\<close>, the step of \<^verbatim>\<open>max()\<close>: \<open>nan\<close> wins.\<close>

definition fmax :: "npfloat \<Rightarrow> npfloat \<Rightarrow> npfloat" where
  "fmax x y = (if isnan x then x else if isnan y then y else if flt x y then y else x)"

type_synonym vec = "npfloat list"
type_synonym mat = "npfloat list list"

text \<open>
  The exceptions of the model. \<open>LinAlgError\<close> is what \<^verbatim>\<open>np.linalg.pinv\<close> raises,
  \<open>ValueError\<close> what \<^verbatim>\<open>max()\<close> of an empty array raises, \<open>TypeError\<close> what
  \<^verbatim>\<open>np.isnan(None)\<close> raises, \<open>UnboundLocalError\<close> a local name read before it is bound.
\<close>

datatype error = IndexError | TypeError | ValueError | LinAlgError | UnboundLocalError

text \<open>\<^verbatim>\<open>a.sum()\<close>, summed from the left, and \<^verbatim>\<open>a.max()\<close>.\<close>

definition fsum :: "vec \<Rightarrow> npfloat" where
  "fsum xs = foldl fadd (Fin 0) xs"

fun np_max :: "vec \<Rightarrow> error + npfloat" where
  "np_max [] = Inl ValueError"
| "np_max (x # xs) = Inr (foldl fmax x xs)"

text \<open>
  A matrix is the list of its rows; \<open>shape\<close> is \<^verbatim>\<open>a.shape\<close> of a two-dimensional
  array (with no row, the number of columns is not kept and reads 0).
\<close>

definition shape :: "'a list list \<Rightarrow> nat \<times> nat" where
  "shape a = (length a, if a = [] then 0 else length (hd a))"

definition col :: "'a list list \<Rightarrow> nat \<Rightarrow> 'a list" where
  "col a j = map (\<lambda>r. r ! j) a"

section \<open>get\_mask\<close>

text \<open>
  \<^verbatim>\<open>
  def get_mask(targets, drops):
      mask= np.ones(targets.shape, dtype=bool) # start with all values true
      if drops is not None:
          for row, cols in drops.items():
              mask[row, cols] = False
      return mask
  \<close>
  \<open>drops\<close> is \<^verbatim>\<open>None\<close> or a dict from a row index to a tuple of column indices: its
  items in order. An index is a Python int: a negative one counts from the end, one out of
  range raises IndexError.
\<close>

definition norm_index :: "nat \<Rightarrow> int \<Rightarrow> error + nat" where
  "norm_index n i =
     (let j = (if i < 0 then int n + i else i)
      in if 0 \<le> j \<and> j < int n then Inr (nat j) else Inl IndexError)"

fun norm_indices :: "nat \<Rightarrow> int list \<Rightarrow> error + nat list" where
  "norm_indices n [] = Inr []"
| "norm_indices n (i # is) =
     (case norm_index n i of
        Inl e \<Rightarrow> Inl e
      | Inr j \<Rightarrow> (case norm_indices n is of Inl e \<Rightarrow> Inl e | Inr js \<Rightarrow> Inr (j # js)))"

text \<open>\<^verbatim>\<open>mask[row, cols] = False\<close>\<close>

definition mask_assign :: "bool list list \<Rightarrow> int \<Rightarrow> int list \<Rightarrow> error + bool list list" where
  "mask_assign msk row cols =
     (case norm_index (fst (shape msk)) row of
        Inl e \<Rightarrow> Inl e
      | Inr r \<Rightarrow>
          (case norm_indices (snd (shape msk)) cols of
             Inl e \<Rightarrow> Inl e
           | Inr cs \<Rightarrow> Inr (msk[r := foldl (\<lambda>rw c. rw[c := False]) (msk ! r) cs])))"

fun mask_drops :: "bool list list \<Rightarrow> (int \<times> int list) list \<Rightarrow> error + bool list list" where
  "mask_drops msk [] = Inr msk"
| "mask_drops msk ((row, cols) # items) =
     (case mask_assign msk row cols of
        Inl e \<Rightarrow> Inl e
      | Inr msk' \<Rightarrow> mask_drops msk' items)"

definition get_mask :: "mat \<Rightarrow> (int \<times> int list) list option \<Rightarrow> error + bool list list" where
  "get_mask targets drops =
     (let msk = replicate (fst (shape targets)) (replicate (snd (shape targets)) True)
      in case drops of None \<Rightarrow> Inr msk | Some items \<Rightarrow> mask_drops msk items)"

section \<open>rake\<close>

text \<open>
  \<^verbatim>\<open>
  def rake(Xs, d, total, q=1, objective=None):
      EPS = 1e-15  # machine double precision used in R
      EPS1 = 1e-8  # R calib uses 1e-6
      max_iter = 10
      d = d.reshape((-1, 1))
      total = total.reshape((-1, 1))
      lam = np.zeros((Xs.shape[1], 1))  # lam is k x 1
      w1 = d * np.exp(np.dot(Xs, lam) * q) # h(n) x 1
      g = np.ones(w1.size)
      for i in range(max_iter):
          phi = np.dot(Xs.T, w1) - total  # phi is 1 col matrix
          T1 = (Xs * w1).T # T1 has k(m) rows and h(n) columns
          phiprim = np.dot(T1, Xs) # phiprim is k x k
          lam = lam - np.dot(np.linalg.pinv(phiprim, rcond = 1e-15), phi) # k x 1
          w1 = d * np.exp(np.dot(Xs, lam) * q)  # h(n) x 1; in R this is a vector??
          if np.isnan(w1).any() or np.isinf(w1).any():
              warnings.warn("No convergence")
              g = None
              break
          tr = np.inner(Xs.T, w1.T) # k x 1
          if np.max(np.abs(tr - total) / total) < EPS1:
              break
          if i==max_iter:
              warnings.warn("No convergence")
              g = None
          else:
              g = w1 / d  # djb: what if d has zeros?
          g = np.array(g, dtype=float)  # djb
          g = g.reshape((-1, ))
      return g
  \<close>
  \<open>Xs\<close> is the list of its rows (one per record), \<open>d\<close> and \<open>tot\<close> (the source's \<^verbatim>\<open>total\<close>) are vectors, and the
  shapes are taken to agree. \<^verbatim>\<open>np.linalg.pinv\<close> is numpy's: the model takes it as the
  parameter \<open>pinv\<close>, which may raise. The result is \<open>None\<close> for Python's \<^verbatim>\<open>None\<close>.
\<close>

definition dot :: "vec \<Rightarrow> vec \<Rightarrow> npfloat" where
  "dot xs ys = fsum (map2 fmul xs ys)"

text \<open>\<^verbatim>\<open>np.dot(a, v)\<close> and \<^verbatim>\<open>np.dot(a.T, v)\<close> for a matrix \<open>a\<close> and a column \<open>v\<close>.\<close>

definition mat_vec :: "mat \<Rightarrow> vec \<Rightarrow> vec" where
  "mat_vec a v = map (\<lambda>r. dot r v) a"

definition matT_vec :: "mat \<Rightarrow> vec \<Rightarrow> vec" where
  "matT_vec a v = map (\<lambda>c. dot (col a c) v) [0..<snd (shape a)]"

definition EPS1 :: npfloat where
  "EPS1 = Fin (1 / 10 ^ 8)"

definition max_iter :: nat where
  "max_iter = 10"

text \<open>\<^verbatim>\<open>d * np.exp(np.dot(Xs, lam) * q)\<close>\<close>

definition weights :: "mat \<Rightarrow> vec \<Rightarrow> vec \<Rightarrow> npfloat \<Rightarrow> vec" where
  "weights Xs d lam q = map2 (\<lambda>di e. fmul di (fexp (fmul e q))) d (mat_vec Xs lam)"

text \<open>\<^verbatim>\<open>np.dot((Xs * w1).T, Xs)\<close>\<close>

definition phiprim_of :: "mat \<Rightarrow> vec \<Rightarrow> mat" where
  "phiprim_of Xs w1 =
     map (\<lambda>c. map (\<lambda>c'. dot (map2 fmul (col Xs c) w1) (col Xs c')) [0..<snd (shape Xs)])
       [0..<snd (shape Xs)]"

text \<open>\<^verbatim>\<open>np.max(np.abs(tr - total) / total)\<close>\<close>

definition residual :: "vec \<Rightarrow> vec \<Rightarrow> error + npfloat" where
  "residual tr tot = np_max (map2 (\<lambda>t u. fdiv (fabs (fsub t u)) u) tr tot)"

text \<open>
  The loop \<^verbatim>\<open>for i in range(max_iter)\<close>: \<open>n\<close> iterations are left and \<open>i\<close> is the loop
  variable. \<^verbatim>\<open>np.array(None, dtype=float).reshape((-1, ))\<close> is the array \<open>[nan]\<close>.
\<close>

fun rake_loop ::
  "(mat \<Rightarrow> error + mat) \<Rightarrow> mat \<Rightarrow> vec \<Rightarrow> vec \<Rightarrow> npfloat \<Rightarrow> nat \<Rightarrow> nat \<Rightarrow> vec \<Rightarrow> vec \<Rightarrow>
     vec option \<Rightarrow> error + vec option" where
  "rake_loop pinv Xs d tot q 0 i lam w1 g = Inr g"
| "rake_loop pinv Xs d tot q (Suc n) i lam w1 g =
     (let phi = map2 fsub (matT_vec Xs w1) tot;
          phiprim = phiprim_of Xs w1
      in case pinv phiprim of
           Inl e \<Rightarrow> Inl e
         | Inr p \<Rightarrow>
             (let lam' = map2 fsub lam (mat_vec p phi);
                  w1' = weights Xs d lam' q
              in if list_ex isnan w1' \<or> list_ex isinf w1' then Inr None
                 else
                   (let tr = matT_vec Xs w1'
                    in case residual tr tot of
                         Inl e \<Rightarrow> Inl e
                       | Inr r \<Rightarrow>
                           if flt r EPS1 then Inr g
                           else
                             (let g' = (if i = max_iter then None else Some (map2 fdiv w1' d))
                              in rake_loop pinv Xs d tot q n (Suc i) lam' w1'
                                   (Some (case g' of None \<Rightarrow> [NaN] | Some v \<Rightarrow> v))))))"

definition rake :: "(mat \<Rightarrow> error + mat) \<Rightarrow> mat \<Rightarrow> vec \<Rightarrow> vec \<Rightarrow> error + vec option" where
  "rake pinv Xs d tot =
     (let q = Fin 1;
          lam = replicate (snd (shape Xs)) (Fin 0);
          w1 = weights Xs d lam q;
          g = replicate (length w1) (Fin 1)
      in rake_loop pinv Xs d tot q max_iter 0 lam w1 (Some g))"

text \<open>
  \<^verbatim>\<open>np.linalg.pinv(a, rcond = 1e-15)\<close> on a 1 x 1 matrix, for the runs with one
  characteristic: the only singular value of \<open>[[x]]\<close> is \<open>|x|\<close>, which is above the
  cutoff \<open>rcond * |x|\<close> unless \<open>x = 0\<close>, so the result is \<open>[[1/x]]\<close>, and \<open>[[0]]\<close> for
  \<open>x = 0\<close>. The decomposition does not converge on an entry that is not finite, and numpy
  raises LinAlgError. Matrices of another shape are outside this instance, which
  answers LinAlgError there.
\<close>

fun pinv1 :: "mat \<Rightarrow> error + mat" where
  "pinv1 [[Fin x]] = Inr [[if x = 0 then Fin 0 else fdiv (Fin 1) (Fin x)]]"
| "pinv1 a = Inl LinAlgError"

section \<open>gec\<close>

text \<open>
  \<^verbatim>\<open>
  def gec(xmat, wh, targets, target_weights = None,
          objective = ec.Objective.ENTROPY, increment = 0.001):
      wh = np.where(wh == 0, SMALL_POSITIVE, wh)
      pop = wh.sum()
      tmeans = targets / pop
      ompw, l2_norm = ec.maybe_exact_calibrate(
          covariates=xmat, target_covariates=tmeans.reshape((1, -1)),
          baseline_weights=wh, target_weights=target_weights,
          autoscale=True, objective=objective, increment=increment)
      g = ompw * pop / wh
      g = np.array(g, dtype=float).reshape((-1, ))  # djb
      return g
  \<close>
  \<^verbatim>\<open>ec.maybe_exact_calibrate\<close> is the library \<^verbatim>\<open>empirical_calibration\<close>: the parameter
  \<open>solver\<close>, from the covariates, the target means, the baseline weights and the objective
  to the weights, which may raise.
\<close>

datatype objective = ENTROPY | QUADRATIC

definition SMALL_POSITIVE :: npfloat where
  "SMALL_POSITIVE = Fin (1 / 2 ^ 1074)"

definition gec ::
  "(mat \<Rightarrow> vec \<Rightarrow> vec \<Rightarrow> objective \<Rightarrow> error + vec) \<Rightarrow> mat \<Rightarrow> vec \<Rightarrow> vec \<Rightarrow> objective \<Rightarrow>
     error + vec option" where
  "gec solver xmat wh targets obj =
     (let wh' = map (\<lambda>w. if w = Fin 0 then SMALL_POSITIVE else w) wh;
          pop = fsum wh';
          tmeans = map (\<lambda>t. fdiv t pop) targets
      in case solver xmat tmeans wh' obj of
           Inl e \<Rightarrow> Inl e
         | Inr ompw \<Rightarrow> Inr (Some (map2 (\<lambda>mw w. fdiv (fmul mw pop) w) ompw wh')))"

section \<open>qrake\<close>

text \<open>
  The calibrator \<^verbatim>\<open>gfn\<close> that \<^verbatim>\<open>qrake\<close> binds from \<^verbatim>\<open>method\<close>:
  \<^verbatim>\<open>
      if method == 'raking':
          gfn = rake
          objective = None
      elif method == 'raking-ec':
          gfn = gec
  \<close>
  With any other method the name stays unbound, and the first call raises
  UnboundLocalError.
\<close>

type_synonym calibrator = "mat \<Rightarrow> vec \<Rightarrow> vec \<Rightarrow> error + vec option"

definition select_gfn ::
  "(mat \<Rightarrow> error + mat) \<Rightarrow> (mat \<Rightarrow> vec \<Rightarrow> vec \<Rightarrow> objective \<Rightarrow> error + vec) \<Rightarrow> string \<Rightarrow>
     objective \<Rightarrow> calibrator" where
  "select_gfn pinv solver method obj =
     (if method = ''raking'' then rake pinv
      else if method = ''raking-ec'' then (\<lambda>Xs d tot. gec solver Xs d tot obj)
      else (\<lambda>Xs d tot. Inl UnboundLocalError))"

definition TOL_WTDIFF :: npfloat where
  "TOL_WTDIFF = Fin (5 / 10000)"

definition TOL_TARGPCTDIFF :: npfloat where
  "TOL_TARGPCTDIFF = Fin (1 / 10)"

text \<open>Indexing with a boolean array, \<^verbatim>\<open>a[good_cols]\<close>: the entries where it is True.\<close>

definition select :: "'a list \<Rightarrow> bool list \<Rightarrow> 'a list" where
  "select xs bs = map fst (filter snd (zip xs bs))"

text \<open>
  \<^verbatim>\<open>g = gfn(xmat_wh[:, good_cols], Q[:, j], targets[j, good_cols], objective=objective)\<close>
  with \<^verbatim>\<open>good_cols = mask[j, :]\<close>.
\<close>

definition area_g :: "calibrator \<Rightarrow> mat \<Rightarrow> mat \<Rightarrow> bool list list \<Rightarrow> mat \<Rightarrow> nat \<Rightarrow> error + vec option" where
  "area_g gfn xmat_wh targets msk Q j =
     (let good_cols = msk ! j
      in gfn (map (\<lambda>r. select r good_cols) xmat_wh) (col Q j) (select (targets ! j) good_cols))"

text \<open>
  \<^verbatim>\<open>Q[:, j] * g.reshape(g.size, )\<close>: elementwise, a \<open>g\<close> of one entry is broadcast, and
  any other difference of lengths raises ValueError.
\<close>

definition col_times :: "vec \<Rightarrow> vec \<Rightarrow> error + vec" where
  "col_times c g =
     (if length g = length c then Inr (map2 fmul c g)
      else if length g = 1 then Inr (map (\<lambda>x. fmul x (hd g)) c)
      else Inl ValueError)"

definition set_col :: "mat \<Rightarrow> nat \<Rightarrow> vec \<Rightarrow> mat" where
  "set_col Q j c = map2 (\<lambda>r v. r[j := v]) Q c"

text \<open>
  The body of \<^verbatim>\<open>for j in range(m)\<close>:
  \<^verbatim>\<open>
      g = gfn(...)
      if np.isnan(g).any() or np.isinf(g).any() or g.any() == 0:
          g = np.ones(g.size)
      Q[:, j] = Q[:, j] * g.reshape(g.size, )
  \<close>
  \<^verbatim>\<open>np.isnan(None)\<close> raises TypeError.
\<close>

definition area_update ::
  "calibrator \<Rightarrow> mat \<Rightarrow> mat \<Rightarrow> bool list list \<Rightarrow> mat \<Rightarrow> nat \<Rightarrow> error + mat" where
  "area_update gfn xmat_wh targets msk Q j =
     (case area_g gfn xmat_wh targets msk Q j of
        Inl e \<Rightarrow> Inl e
      | Inr None \<Rightarrow> Inl TypeError
      | Inr (Some g) \<Rightarrow>
          (let g' = (if list_ex isnan g \<or> list_ex isinf g \<or> \<not> list_ex (\<lambda>x. x \<noteq> Fin 0) g
                     then replicate (length g) (Fin 1) else g)
           in case col_times (col Q j) g' of
                Inl e \<Rightarrow> Inl e
              | Inr c \<Rightarrow> Inr (set_col Q j c)))"

fun areas_loop ::
  "calibrator \<Rightarrow> mat \<Rightarrow> mat \<Rightarrow> bool list list \<Rightarrow> mat \<Rightarrow> nat list \<Rightarrow> error + mat" where
  "areas_loop gfn xmat_wh targets msk Q [] = Inr Q"
| "areas_loop gfn xmat_wh targets msk Q (j # js) =
     (case area_update gfn xmat_wh targets msk Q j of
        Inl e \<Rightarrow> Inl e
      | Inr Q' \<Rightarrow> areas_loop gfn xmat_wh targets msk Q' js)"

text \<open>\<^verbatim>\<open>np.abs(Q.sum(axis=1) - 1)\<close>\<close>

definition abswtdiff_of :: "mat \<Rightarrow> vec" where
  "abswtdiff_of Q = map (\<lambda>r. fabs (fsub (fsum r) (Fin 1))) Q"

text \<open>\<^verbatim>\<open>Q / Q.sum(axis=1)[:, None]\<close>\<close>

definition renormalize :: "mat \<Rightarrow> mat" where
  "renormalize Q = map (\<lambda>r. map (\<lambda>x. fdiv x (fsum r)) r) Q"

text \<open>
  \<^verbatim>\<open>
      whs = np.multiply(Q, wh.reshape((-1, 1)))
      diff = np.dot(whs.T, xmat) - targets
      abspctdiff = np.abs(diff / targets * 100)
  \<close>
\<close>

definition abspctdiff_of :: "mat \<Rightarrow> vec \<Rightarrow> mat \<Rightarrow> mat \<Rightarrow> mat" where
  "abspctdiff_of Q wh xmat targets =
     (let whs = map2 (\<lambda>r w. map (\<lambda>x. fmul x w) r) Q wh
      in map (\<lambda>j. map (\<lambda>c.
            (let diff = fsub (dot (col whs j) (col xmat c)) (targets ! j ! c)
             in fabs (fmul (fdiv diff (targets ! j ! c)) (Fin 100))))
          [0..<snd (shape targets)]) [0..<fst (shape targets)])"

text \<open>
  What the run prints, as far as the claims go: the line of an infinite row sum and the
  line of the iteration cap. The progress lines and the tables of statistics are left out.
\<close>

datatype message = InfiniteCoefficients | MaxIterExceeded

text \<open>
  The local variables of \<^verbatim>\<open>qrake\<close> that the loop changes; \<open>abspctdiff\<close> is \<open>None\<close>
  while the name is unbound, and \<open>printed\<close> is the output so far.
\<close>

record 'q qstate =
  Q :: 'q
  max_weight_absdiff :: npfloat
  max_targ_abspctdiff :: npfloat
  iter :: int
  abspctdiff :: "mat option"
  printed :: "message list"

text \<open>
  One pass of the body of the while loop, after the areas:
  \<^verbatim>\<open>
      abswtdiff = np.abs(Q.sum(axis=1) - 1)
      max_weight_absdiff = abswtdiff.max()
      if np.isinf(abswtdiff).any():
          # these weight shares are not good, do another iteration
          max_weight_absdiff = TOL_WTDIFF
          print("Existence of infinite coefficients --> non-convergence.")
      Q = Q / Q.sum(axis=1)[:, None]
      whs = ...; diff = ...; abspctdiff = ...
      max_targ_abspctdiff = abspctdiff[mask].max()
      ptile = np.quantile(abspctdiff[mask], (.95))
      iter = iter + 1
  \<close>
  \<open>ptile\<close> is only printed; on the non-empty array that \<^verbatim>\<open>max()\<close> has accepted,
  \<^verbatim>\<open>np.quantile\<close> does not raise.
\<close>

definition sweep ::
  "calibrator \<Rightarrow> vec \<Rightarrow> mat \<Rightarrow> mat \<Rightarrow> mat \<Rightarrow> bool list list \<Rightarrow> mat qstate \<Rightarrow> error + mat qstate" where
  "sweep gfn wh xmat xmat_wh targets msk st =
     (case areas_loop gfn xmat_wh targets msk (Q st) [0..<fst (shape targets)] of
        Inl e \<Rightarrow> Inl e
      | Inr Q1 \<Rightarrow>
          (let abswtdiff = abswtdiff_of Q1
           in case np_max abswtdiff of
                Inl e \<Rightarrow> Inl e
              | Inr mw \<Rightarrow>
                  (let has_inf = list_ex isinf abswtdiff;
                       Q2 = renormalize Q1;
                       apd = abspctdiff_of Q2 wh xmat targets
                   in case np_max (select (concat apd) (concat msk)) of
                        Inl e \<Rightarrow> Inl e
                      | Inr mt \<Rightarrow>
                          Inr \<lparr>Q = Q2,
                               max_weight_absdiff = (if has_inf then TOL_WTDIFF else mw),
                               max_targ_abspctdiff = mt,
                               iter = iter st + 1,
                               abspctdiff = Some apd,
                               printed = printed st @ (if has_inf then [InfiniteCoefficients] else [])\<rparr>)))"

text \<open>
  \<^verbatim>\<open>
      while ((max_weight_absdiff > TOL_WTDIFF) or \
             (max_targ_abspctdiff > TOL_TARGPCTDIFF)) & \
          (iter <= maxiter):
  \<close>
\<close>

definition continues :: "int \<Rightarrow> 'q qstate \<Rightarrow> bool" where
  "continues maxiter st =
     ((fgt (max_weight_absdiff st) TOL_WTDIFF \<or> fgt (max_targ_abspctdiff st) TOL_TARGPCTDIFF)
      \<and> iter st \<le> maxiter)"

function qrake_loop ::
  "calibrator \<Rightarrow> vec \<Rightarrow> mat \<Rightarrow> mat \<Rightarrow> mat \<Rightarrow> bool list list \<Rightarrow> int \<Rightarrow> mat qstate \<Rightarrow> error + mat qstate" where
  "qrake_loop gfn wh xmat xmat_wh targets msk maxiter st =
     (if continues maxiter st
      then (case sweep gfn wh xmat xmat_wh targets msk st of
              Inl e \<Rightarrow> Inl e
            | Inr st' \<Rightarrow> qrake_loop gfn wh xmat xmat_wh targets msk maxiter st')
      else Inr st)"
  by pat_completeness auto
termination
proof (relation "measure (\<lambda>(gfn, wh, xmat, xmat_wh, targets, msk, maxiter, st). nat (maxiter + 1 - iter st))")
  show "wf (measure (\<lambda>(gfn, wh, xmat, xmat_wh, targets, msk, maxiter, st). nat (maxiter + 1 - iter st)))"
    by simp
next
  fix gfn :: calibrator and wh :: vec and xmat xmat_wh targets :: mat and msk :: "bool list list"
    and maxiter :: int and st st' :: "mat qstate"
  assume c: "continues maxiter st" and s: "sweep gfn wh xmat xmat_wh targets msk st = Inr st'"
  from s have "iter st' = iter st + 1"
    by (auto simp: sweep_def Let_def split: sum.splits)
  moreover from c have "iter st \<le> maxiter"
    by (simp add: continues_def)
  ultimately show "((gfn, wh, xmat, xmat_wh, targets, msk, maxiter, st'),
                    (gfn, wh, xmat, xmat_wh, targets, msk, maxiter, st))
        \<in> measure (\<lambda>(gfn, wh, xmat, xmat_wh, targets, msk, maxiter, st). nat (maxiter + 1 - iter st))"
    by simp
qed

declare qrake_loop.simps [simp del]

text \<open>
  The state after \<open>n\<close> passes of the body of the while loop, the test of the loop left
  aside: what the loop has computed when it has made \<open>n\<close> sweeps.
\<close>

fun sweeps ::
  "calibrator \<Rightarrow> vec \<Rightarrow> mat \<Rightarrow> mat \<Rightarrow> mat \<Rightarrow> bool list list \<Rightarrow> nat \<Rightarrow> mat qstate \<Rightarrow> error + mat qstate" where
  "sweeps gfn wh xmat xmat_wh targets msk 0 st = Inr st"
| "sweeps gfn wh xmat xmat_wh targets msk (Suc n) st =
     (case sweep gfn wh xmat xmat_wh targets msk st of
        Inl e \<Rightarrow> Inl e
      | Inr st' \<Rightarrow> sweeps gfn wh xmat xmat_wh targets msk n st')"

text \<open>
  \<^verbatim>\<open>qrake(Q, wh, xmat, targets, method='raking', maxiter=200, drops=None, objective=ENTROPY)\<close>.
  An argument the call leaves out is \<open>None\<close> here and takes the default of the signature;
  \<open>drops\<close> is \<open>None\<close> or the items of the dict. After the loop:
  \<^verbatim>\<open>
      abswtdiff = np.abs(Q.sum(axis=1) - 1)
      max_weight_absdiff = abswtdiff.max()
      if iter > maxiter:
          print('\nMaximum number of iterations exceeded.\n')
      p100a = abspctdiff.max()
      p100m = abspctdiff[mask].max()
      ...
      return Q
  \<close>
  The model returns the final state: its \<open>Q\<close> is the value returned, \<open>iter\<close> and
  \<open>printed\<close> tell what the run did.
\<close>

definition qrake ::
  "(mat \<Rightarrow> error + mat) \<Rightarrow> (mat \<Rightarrow> vec \<Rightarrow> vec \<Rightarrow> objective \<Rightarrow> error + vec) \<Rightarrow>
     mat \<Rightarrow> vec \<Rightarrow> mat \<Rightarrow> mat \<Rightarrow> string option \<Rightarrow> int option \<Rightarrow> (int \<times> int list) list option \<Rightarrow>
     objective option \<Rightarrow> error + mat qstate" where
  "qrake pinv solver Q0 wh xmat targets method_arg maxiter_arg drops objective_arg =
     (let method = (case method_arg of None \<Rightarrow> ''raking'' | Some s \<Rightarrow> s);
          maxiter = (case maxiter_arg of None \<Rightarrow> 200 | Some n \<Rightarrow> n);
          obj = (case objective_arg of None \<Rightarrow> ENTROPY | Some ob \<Rightarrow> ob);
          gfn = select_gfn pinv solver method obj;
          xmat_wh = map2 (\<lambda>r w. map (\<lambda>x. fmul x w) r) xmat wh
      in case get_mask targets drops of
           Inl e \<Rightarrow> Inl e
         | Inr msk \<Rightarrow>
             (case qrake_loop gfn wh xmat xmat_wh targets msk maxiter
                     \<lparr>Q = Q0, max_weight_absdiff = Fin (10 ^ 9), max_targ_abspctdiff = Fin (10 ^ 9),
                      iter = 1, abspctdiff = None, printed = []\<rparr> of
                Inl e \<Rightarrow> Inl e
              | Inr st \<Rightarrow>
                  (case np_max (abswtdiff_of (Q st)) of
                     Inl e \<Rightarrow> Inl e
                   | Inr mw \<Rightarrow>
                       (let out = printed st @ (if iter st > maxiter then [MaxIterExceeded] else [])
                        in case abspctdiff st of
                             None \<Rightarrow> Inl UnboundLocalError
                           | Some apd \<Rightarrow>
                               (case np_max (concat apd) of
                                  Inl e \<Rightarrow> Inl e
                                | Inr p100a \<Rightarrow>
                                    (case np_max (select (concat apd) (concat msk)) of
                                       Inl e \<Rightarrow> Inl e
                                     | Inr p100m \<Rightarrow>
                                         Inr (st\<lparr>max_weight_absdiff := mw, printed := out\<rparr>)))))))"

section \<open>qrake on a store of arrays\<close>


















text \<open>
  The state with another value for \<open>Q\<close>: it relates a state of the run on the store, where
  \<open>Q\<close> is an address, to the state of \<open>qrake\<close>, where it is the matrix.
\<close>

definition with_Q :: "'a qstate \<Rightarrow> 'b \<Rightarrow> 'b qstate" where
  "with_Q st v =
     \<lparr>Q = v, max_weight_absdiff = max_weight_absdiff st, max_targ_abspctdiff = max_targ_abspctdiff st,
      iter = iter st, abspctdiff = abspctdiff st, printed = printed st\<rparr>"

section \<open>Notions of the specification\<close>

text \<open>
  A share that is finite and not negative; the largest entry of a list, in the order
  of the floats; and the percent difference of one target cell as the specification
  writes it: \<open>|(\<Sum>i. Q[i,j] * wh[i] * xmat[i,c] - targets[j,c]) / targets[j,c]| * 100\<close>.
\<close>

definition nonneg_finite :: "npfloat \<Rightarrow> bool" where
  "nonneg_finite x = (case x of Fin a \<Rightarrow> 0 \<le> a | _ \<Rightarrow> False)"

definition is_max :: "npfloat \<Rightarrow> vec \<Rightarrow> bool" where
  "is_max v xs = (v \<in> set xs \<and> list_all (\<lambda>x. fle x v) xs)"

definition pct_cell :: "mat \<Rightarrow> vec \<Rightarrow> mat \<Rightarrow> mat \<Rightarrow> nat \<Rightarrow> nat \<Rightarrow> npfloat" where
  "pct_cell A wh xmat targets j c =
     fabs (fmul (fdiv (fsub (dot (col (map2 (\<lambda>r w. map (\<lambda>x. fmul x w) r) A wh) j) (col xmat c))
                         (targets ! j ! c))
                   (targets ! j ! c))
             (Fin 100))"

text \<open>A matrix of \<open>m\<close> rows of \<open>k\<close> entries each.\<close>

definition has_shape :: "'a list list \<Rightarrow> nat \<Rightarrow> nat \<Rightarrow> bool" where
  "has_shape a m k = (length a = m \<and> list_all (\<lambda>r. length r = k) a)"

section \<open>The Newton step of rake with one characteristic\<close>

text \<open>
  With one characteristic, every record of weight 1 and \<open>x = 1\<close>, the iteration of
  \<^verbatim>\<open>rake\<close> is Newton's method for \<open>n * exp lam = total\<close>:
  \<open>lam' = lam - 1 + (total / n) / exp lam\<close>. When \<open>lam\<close> is off the solution
  \<open>ln (total / n)\<close> by \<open>x\<close>, the next \<open>lam'\<close> is off by \<open>newton_gap x\<close>.
\<close>

definition newton_gap :: "real \<Rightarrow> real" where
  "newton_gap x = x - 1 + exp (- x)"

section \<open>Arithmetic of the model\<close>

lemma DBL_MAX_ge: "2 ^ 1023 \<le> DBL_MAX"
proof -
  have "(1::real) \<le> 2 - 1 / 2 ^ 52" by simp
  then have "1 * (2::real) ^ 1023 \<le> (2 - 1 / 2 ^ 52) * 2 ^ 1023"
    by (rule mult_right_mono) simp
  then show ?thesis by (simp only: DBL_MAX_def mult_1)
qed

lemma DBL_MAX_lt: "DBL_MAX < 2 ^ 1024"
proof -
  have "(2 - 1 / 2 ^ 52) * (2::real) ^ 1023 < 2 * 2 ^ 1023"
    by (rule mult_strict_right_mono) simp_all
  then show ?thesis by (simp only: DBL_MAX_def power_Suc [symmetric]) simp
qed

lemma DBL_MAX_gt_small: "10000000000 < DBL_MAX"
proof -
  have "(10000000000::real) < 2 ^ 40" by simp
  also have "\<dots> \<le> 2 ^ 1023" by (rule power_increasing) simp_all
  finally show ?thesis using DBL_MAX_ge by linarith
qed

text \<open>No overflow below \<open>10^10\<close>, where the concrete runs stay.\<close>

lemma ovf_Fin: "\<bar>r\<bar> \<le> 10000000000 \<Longrightarrow> ovf r = Fin r"
  using DBL_MAX_gt_small by (auto simp: ovf_def)

text \<open>\<open>exp\<close> overflows from 1024 on (in float64, already from about 709.8).\<close>

lemma exp_overflows:
  assumes "1024 \<le> x"
  shows "DBL_MAX < exp x"
proof -
  have "(2::real) \<le> exp 1"
    using exp_ge_add_one_self [of "1::real"] by simp
  then have "(2::real) ^ 1024 \<le> exp 1 ^ 1024"
    by (rule power_mono) simp
  also have "exp (1::real) ^ 1024 = exp (of_nat 1024 * 1)"
    by (rule exp_of_nat_mult [symmetric])
  also have "\<dots> \<le> exp x"
    using assms by simp
  finally show ?thesis
    using DBL_MAX_lt by linarith
qed

lemma fexp_overflows: "1024 \<le> x \<Longrightarrow> fexp (Fin x) = PInf"
  by (simp add: ovf_def exp_overflows)

lemmas np_defs = weights_def mat_vec_def matT_vec_def dot_def fsum_def shape_def
  col_def phiprim_of_def residual_def fsub_def EPS1_def ovf_Fin Let_def

lemma max_iter_Suc: "max_iter = Suc (Suc (Suc (Suc (Suc (Suc (Suc (Suc (Suc (Suc 0)))))))))"
  by (simp add: max_iter_def)

section \<open>Runs of rake\<close>

text \<open>
  One record with the characteristic 0 and the target 1, which no weight reaches: every
  iteration leaves \<open>lam\<close> at 0 and the residual at 1, and after the tenth the loop ends
  with \<open>g = w1 / d\<close>.
\<close>

lemma rake_infeasible: "rake pinv1 [[Fin 0]] [Fin 1] [Fin 1] = Inr (Some [Fin 1])"
proof -
  have w: "weights [[Fin 0]] [Fin 1] [Fin 0] (Fin 1) = [Fin 1]"
    by (simp add: np_defs)
  have step: "rake_loop pinv1 [[Fin 0]] [Fin 1] [Fin 1] (Fin 1) (Suc n) i [Fin 0] [Fin 1] g =
     rake_loop pinv1 [[Fin 0]] [Fin 1] [Fin 1] (Fin 1) n (Suc i) [Fin 0] [Fin 1] (Some [Fin 1])"
    if "i \<noteq> max_iter" for n i g
    using that by (simp add: np_defs)
  have "rake pinv1 [[Fin 0]] [Fin 1] [Fin 1] =
        rake_loop pinv1 [[Fin 0]] [Fin 1] [Fin 1] (Fin 1) max_iter 0 [Fin 0] [Fin 1] (Some [Fin 1])"
    by (simp add: rake_def Let_def w shape_def)
  also have "\<dots> = Inr (Some [Fin 1])"
    unfolding max_iter_Suc by (simp add: step max_iter_def del: rake_loop.simps(2))
  finally show ?thesis .
qed

text \<open>One record of weight 0: \<open>w1 / d\<close> is \<open>0 / 0\<close> in every iteration.\<close>

lemma rake_zero_weight: "rake pinv1 [[Fin 1]] [Fin 0] [Fin 1] = Inr (Some [NaN])"
proof -
  have w: "weights [[Fin 1]] [Fin 0] [Fin 0] (Fin 1) = [Fin 0]"
    by (simp add: np_defs)
  have step: "rake_loop pinv1 [[Fin 1]] [Fin 0] [Fin 1] (Fin 1) (Suc n) i [Fin 0] [Fin 0] g =
     rake_loop pinv1 [[Fin 1]] [Fin 0] [Fin 1] (Fin 1) n (Suc i) [Fin 0] [Fin 0] (Some [NaN])"
    if "i \<noteq> max_iter" for n i g
    using that by (simp add: np_defs)
  have "rake pinv1 [[Fin 1]] [Fin 0] [Fin 1] =
        rake_loop pinv1 [[Fin 1]] [Fin 0] [Fin 1] (Fin 1) max_iter 0 [Fin 0] [Fin 0] (Some [Fin 1])"
    by (simp add: rake_def Let_def w shape_def)
  also have "\<dots> = Inr (Some [NaN])"
    unfolding max_iter_Suc by (simp add: step max_iter_def del: rake_loop.simps(2))
  finally show ?thesis .
qed

text \<open>
  One record, the target \<open>10^10\<close>: the first Newton step sets \<open>lam\<close> to \<open>10^10 - 1\<close>, and
  \<open>exp\<close> overflows.
\<close>

lemma rake_overflow: "rake pinv1 [[Fin 1]] [Fin 1] [Fin 10000000000] = Inr None"
proof -
  have w: "weights [[Fin 1]] [Fin 1] [Fin 0] (Fin 1) = [Fin 1]"
    by (simp add: np_defs)
  have w': "weights [[Fin 1]] [Fin 1] [Fin 9999999999] (Fin 1) = [PInf]"
    by (simp add: np_defs fexp_overflows inf_signed_def del: fexp.simps)
  have "rake pinv1 [[Fin 1]] [Fin 1] [Fin 10000000000] =
        rake_loop pinv1 [[Fin 1]] [Fin 1] [Fin 10000000000] (Fin 1) max_iter 0 [Fin 0] [Fin 1]
          (Some [Fin 1])"
    by (simp add: rake_def Let_def w shape_def)
  also have "\<dots> = Inr None"
    unfolding max_iter_Suc rake_loop.simps
    by (simp add: matT_vec_def mat_vec_def dot_def fsum_def shape_def col_def phiprim_of_def
        fsub_def ovf_Fin Let_def w')
  finally show ?thesis .
qed

text \<open>
  C4. \<^verbatim>\<open>rake\<close> makes at most ten iterations, but reaching the cap does not give the
  sentinel: the test \<^verbatim>\<open>i==max_iter\<close> stands inside \<^verbatim>\<open>for i in range(max_iter)\<close>, where
  \<open>i\<close> ends at 9. On the infeasible target the tenth iterate comes back as a vector, and
  with a record of weight 0 the vector is \<open>[nan]\<close>.
\<close>

theorem rake_cap_returns_vector:
  "rake pinv1 [[Fin 0]] [Fin 1] [Fin 1] = Inr (Some [Fin 1]) \<and>
   rake pinv1 [[Fin 1]] [Fin 0] [Fin 1] = Inr (Some [NaN])"
  using rake_infeasible rake_zero_weight by simp

section \<open>The run of rake on the feasible toy case\<close>

text \<open>
  Three records of weight 1, one characteristic with \<open>x = 1\<close>, target 6: the solution
  is \<open>lam = ln 2\<close>, \<open>g = [2, 2, 2]\<close>. The iterates are followed by their distance
  to \<open>ln 2\<close>, which \<open>newton_gap\<close> maps from one iteration to the next.
\<close>

lemma exp_minus_upper:
  fixes x :: real
  assumes "0 \<le> x"
  shows "exp (- x) \<le> 1 - x + x\<^sup>2 / 2"
proof -
  obtain t where "exp (- x) = (\<Sum>m<3. ((- x) ^ m) / fact m) + (exp t / fact 3) * (- x) ^ 3"
    using Maclaurin_exp_le [of "- x" 3] by blast
  then have e: "exp (- x) = 1 - x + x\<^sup>2 / 2 - exp t * x ^ 3 / 6"
    by (simp add: eval_nat_numeral lessThan_Suc fact_numeral algebra_simps)
  have "0 \<le> exp t * x ^ 3 / 6"
    using assms by simp
  with e show ?thesis by linarith
qed

lemma exp_minus_lower:
  fixes x :: real
  assumes "0 \<le> x"
  shows "1 - x + x\<^sup>2 / 2 - x ^ 3 / 6 \<le> exp (- x)"
proof -
  obtain t where "exp (- x) = (\<Sum>m<4. ((- x) ^ m) / fact m) + (exp t / fact 4) * (- x) ^ 4"
    using Maclaurin_exp_le [of "- x" 4] by blast
  then have e: "exp (- x) = 1 - x + x\<^sup>2 / 2 - x ^ 3 / 6 + exp t * x ^ 4 / 24"
    by (simp add: eval_nat_numeral lessThan_Suc fact_numeral algebra_simps)
  have "0 \<le> exp t * x ^ 4 / 24"
    by simp
  with e show ?thesis by linarith
qed

lemma newton_gap_bounds:
  assumes "a \<le> x" "x \<le> b" "0 \<le> a" "b \<le> 3"
  shows "a\<^sup>2 / 2 * (1 - b / 3) \<le> newton_gap x" and "newton_gap x \<le> b\<^sup>2 / 2"
proof -
  have x: "0 \<le> x" using assms by linarith
  have "a\<^sup>2 / 2 * (1 - b / 3) \<le> x\<^sup>2 / 2 * (1 - x / 3)"
  proof (rule mult_mono)
    show "a\<^sup>2 / 2 \<le> x\<^sup>2 / 2" using assms by (simp add: power_mono)
    show "1 - b / 3 \<le> 1 - x / 3" using assms by simp
    show "0 \<le> x\<^sup>2 / 2" by simp
    show "0 \<le> 1 - b / 3" using assms by simp
  qed
  also have "\<dots> = x\<^sup>2 / 2 - x ^ 3 / 6"
    by (simp add: field_simps power2_eq_square power3_eq_cube)
  also have "\<dots> \<le> newton_gap x"
    using exp_minus_lower [OF x] by (simp add: newton_gap_def)
  finally show "a\<^sup>2 / 2 * (1 - b / 3) \<le> newton_gap x" .
  have "newton_gap x \<le> x\<^sup>2 / 2"
    using exp_minus_upper [OF x] by (simp add: newton_gap_def)
  also have "\<dots> \<le> b\<^sup>2 / 2"
    using x assms by (simp add: power_mono)
  finally show "newton_gap x \<le> b\<^sup>2 / 2" .
qed

lemma ln2_bounds: "1 / 2 \<le> ln (2::real)" "ln (2::real) \<le> 7 / 10"
proof -
  have "exp (1 / 2 :: real) \<le> 1 + 1 / 2 + (1 / 2)\<^sup>2"
    by (rule exp_bound) simp_all
  also have "\<dots> \<le> 2" by (simp add: power2_eq_square)
  finally have "exp (1 / 2 :: real) \<le> exp (ln 2)" by simp
  then show "1 / 2 \<le> ln (2::real)" by (simp only: exp_le_cancel_iff)
  have "(2::real) \<le> (1 + 7 / 40 + (7 / 40)\<^sup>2 / 2) ^ 4"
    by (simp add: power2_eq_square eval_nat_numeral)
  also have "\<dots> \<le> exp (7 / 40) ^ 4"
    by (rule power_mono) (use exp_lower_Taylor_quadratic [of "7 / 40 :: real"] in simp_all)
  also have "\<dots> = exp (of_nat 4 * (7 / 40))"
    by (rule exp_of_nat_mult [symmetric])
  also have "\<dots> = exp (7 / 10)" by simp
  finally have "exp (ln 2) \<le> exp (7 / 10 :: real)" by simp
  then show "ln (2::real) \<le> 7 / 10" by (simp only: exp_le_cancel_iff)
qed

lemma toy_matT_vec:
  "0 \<le> w \<Longrightarrow> w \<le> 4 \<Longrightarrow>
     matT_vec [[Fin 1], [Fin 1], [Fin 1]] [Fin w, Fin w, Fin w] = [Fin (3 * w)]"
  by (simp add: matT_vec_def shape_def col_def dot_def fsum_def ovf_Fin)

lemma toy_phiprim:
  "0 \<le> w \<Longrightarrow> w \<le> 4 \<Longrightarrow>
     phiprim_of [[Fin 1], [Fin 1], [Fin 1]] [Fin w, Fin w, Fin w] = [[Fin (3 * w)]]"
  by (simp add: phiprim_of_def shape_def col_def dot_def fsum_def ovf_Fin)

lemma toy_pinv:
  assumes "1 \<le> w" "w \<le> 4"
  shows "pinv1 [[Fin (3 * w)]] = Inr [[Fin (1 / (3 * w))]]"
proof -
  have "0 < 1 / (3 * w)" "1 / (3 * w) \<le> 1"
    using assms by (simp_all add: field_simps)
  then have "ovf (1 / (3 * w)) = Fin (1 / (3 * w))"
    by (intro ovf_Fin) linarith
  with assms show ?thesis by simp
qed

lemma toy_lam:
  assumes "1 \<le> w" "w \<le> 4" "0 \<le> l" "l \<le> 2"
  shows "map2 fsub [Fin l] (mat_vec [[Fin (1 / (3 * w))]] [Fin (3 * w - 6)]) =
           [Fin (l - 1 + 2 / w)]"
proof -
  have e: "1 / (3 * w) * (3 * w - 6) = 1 - 2 / w"
    using assms by (simp add: field_simps)
  have b: "0 < 2 / w" "2 / w \<le> 2"
    using assms by (simp_all add: field_simps)
  have m: "fmul (Fin (1 / (3 * w))) (Fin (3 * w - 6)) = Fin (1 - 2 / w)"
    unfolding fmul.simps e using b by (intro ovf_Fin) linarith
  have a: "fadd (Fin 0) (Fin (1 - 2 / w)) = Fin (1 - 2 / w)"
    unfolding fadd.simps add_0 using b by (intro ovf_Fin) linarith
  have r: "l + - (1 - 2 / w) = l - 1 + 2 / w" by simp
  have s: "fsub (Fin l) (Fin (1 - 2 / w)) = Fin (l - 1 + 2 / w)"
    unfolding fsub_def fneg.simps fadd.simps r using b assms by (intro ovf_Fin) linarith
  have "mat_vec [[Fin (1 / (3 * w))]] [Fin (3 * w - 6)] =
          [fadd (Fin 0) (fmul (Fin (1 / (3 * w))) (Fin (3 * w - 6)))]"
    by (simp only: mat_vec_def dot_def fsum_def list.map zip_Cons_Cons zip_Nil prod.case
        foldl_Cons foldl_Nil)
  then show ?thesis
    by (simp only: m a s list.map zip_Cons_Cons zip_Nil prod.case)
qed

lemma toy_weights:
  assumes "\<bar>l\<bar> \<le> 4" "exp l \<le> 4"
  shows "weights [[Fin 1], [Fin 1], [Fin 1]] [Fin 1, Fin 1, Fin 1] [Fin l] (Fin 1) =
           [Fin (exp l), Fin (exp l), Fin (exp l)]"
proof -
  have "ovf (exp l) = Fin (exp l)"
    using assms by (intro ovf_Fin) simp
  then show ?thesis
    using assms by (simp add: weights_def mat_vec_def dot_def fsum_def ovf_Fin)
qed

lemma toy_residual:
  assumes "0 \<le> w" "w \<le> 4"
  shows "residual [Fin (3 * w)] [Fin 6] = Inr (Fin (\<bar>3 * w - 6\<bar> / 6))"
proof -
  have "ovf (3 * w - 6) = Fin (3 * w - 6)"
    using assms by (intro ovf_Fin) simp
  moreover have "ovf (\<bar>3 * w - 6\<bar> / 6) = Fin (\<bar>3 * w - 6\<bar> / 6)"
    using assms by (intro ovf_Fin) simp
  ultimately show ?thesis
    by (simp add: residual_def fsub_def)
qed

lemma toy_g:
  assumes "0 \<le> w" "w \<le> 4"
  shows "map2 fdiv [Fin w, Fin w, Fin w] [Fin 1, Fin 1, Fin 1] = [Fin w, Fin w, Fin w]"
  using assms by (simp add: ovf_Fin)

lemma toy_step:
  assumes i: "i \<noteq> max_iter" and l: "0 \<le> l" "l \<le> 2" and w: "exp l \<le> 4"
    and l': "l' = l - 1 + 2 / exp l" and w': "exp l' \<le> 4"
  shows "rake_loop pinv1 [[Fin 1], [Fin 1], [Fin 1]] [Fin 1, Fin 1, Fin 1] [Fin 6] (Fin 1) (Suc n) i
           [Fin l] [Fin (exp l), Fin (exp l), Fin (exp l)] g =
         (if \<bar>3 * exp l' - 6\<bar> / 6 < 1 / 10 ^ 8 then Inr g
          else rake_loop pinv1 [[Fin 1], [Fin 1], [Fin 1]] [Fin 1, Fin 1, Fin 1] [Fin 6] (Fin 1) n
                 (Suc i) [Fin l'] [Fin (exp l'), Fin (exp l'), Fin (exp l')]
                 (Some [Fin (exp l'), Fin (exp l'), Fin (exp l')]))"
proof -
  have w1: "1 \<le> exp l" using l by simp
  have w0: "0 \<le> exp l" "0 \<le> exp l'" by simp_all
  have b: "0 < 2 / exp l" "2 / exp l \<le> 2"
    using w1 by (simp_all add: field_simps)
  have la: "\<bar>l'\<bar> \<le> 4" unfolding l' using b l by linarith
  have phi: "map2 fsub (matT_vec [[Fin 1], [Fin 1], [Fin 1]] [Fin (exp l), Fin (exp l), Fin (exp l)])
               [Fin 6] = [Fin (3 * exp l - 6)]"
  proof -
    have "ovf (3 * exp l - 6) = Fin (3 * exp l - 6)"
      using w w1 by (intro ovf_Fin) linarith
    then show ?thesis
      by (simp add: toy_matT_vec [OF w0(1) w] fsub_def)
  qed
  show ?thesis
    apply (subst rake_loop.simps(2))
    apply (simp only: Let_def phi toy_phiprim [OF w0(1) w] toy_pinv [OF w1 w] sum.case
        toy_lam [OF w1 w l] l' [symmetric] toy_weights [OF la w'] toy_matT_vec [OF w0(2) w']
        toy_residual [OF w0(2) w'] toy_g [OF w0(2) w'] i if_False option.case flt.simps EPS1_def)
    apply simp
    done
qed

lemma newton_gap_step:
  assumes "l = ln 2 + x"
  shows "l - 1 + 2 / exp l = ln 2 + newton_gap x" and "exp l = 2 * exp x"
proof -
  show e: "exp l = 2 * exp x"
    by (simp add: assms exp_add)
  have "2 / exp l = exp (- x)"
    unfolding e by (simp add: exp_minus field_simps)
  then show "l - 1 + 2 / exp l = ln 2 + newton_gap x"
    by (simp add: assms newton_gap_def)
qed

lemma exp_gap_bounds:
  fixes x :: real
  assumes "0 \<le> x" "x \<le> 1 / 2"
  shows "x \<le> \<bar>3 * (2 * exp x) - 6\<bar> / 6" and "\<bar>3 * (2 * exp x) - 6\<bar> / 6 \<le> 2 * x"
    and "2 * exp x \<le> 4"
proof -
  have l: "1 + x \<le> exp x" by simp
  have "exp x \<le> 1 + x + x\<^sup>2"
    using assms by (intro exp_bound) simp_all
  moreover have "x\<^sup>2 \<le> x * (1 / 2)"
    unfolding power2_eq_square using assms by (intro mult_left_mono) simp_all
  ultimately have u: "exp x \<le> 1 + 2 * x" using assms by linarith
  have a: "\<bar>3 * (2 * exp x) - 6\<bar> / 6 = exp x - 1"
    using l assms by simp
  show "x \<le> \<bar>3 * (2 * exp x) - 6\<bar> / 6" unfolding a using l by linarith
  show "\<bar>3 * (2 * exp x) - 6\<bar> / 6 \<le> 2 * x" unfolding a using u by linarith
  show "2 * exp x \<le> 4" using u assms by linarith
qed

lemma toy_gap_step:
  assumes "i \<noteq> max_iter" "0 \<le> x" "x \<le> 1 / 2" "0 \<le> newton_gap x" "newton_gap x \<le> 1 / 2"
  shows "rake_loop pinv1 [[Fin 1], [Fin 1], [Fin 1]] [Fin 1, Fin 1, Fin 1] [Fin 6] (Fin 1) (Suc n) i
           [Fin (ln 2 + x)] [Fin (2 * exp x), Fin (2 * exp x), Fin (2 * exp x)] g =
         (if \<bar>3 * (2 * exp (newton_gap x)) - 6\<bar> / 6 < 1 / 10 ^ 8 then Inr g
          else rake_loop pinv1 [[Fin 1], [Fin 1], [Fin 1]] [Fin 1, Fin 1, Fin 1] [Fin 6] (Fin 1) n
                 (Suc i) [Fin (ln 2 + newton_gap x)]
                 [Fin (2 * exp (newton_gap x)), Fin (2 * exp (newton_gap x)),
                  Fin (2 * exp (newton_gap x))]
                 (Some [Fin (2 * exp (newton_gap x)), Fin (2 * exp (newton_gap x)),
                        Fin (2 * exp (newton_gap x))]))"
proof -
  let ?l = "ln 2 + x" and ?l' = "ln 2 + newton_gap x"
  have e: "exp ?l = 2 * exp x" "exp ?l' = 2 * exp (newton_gap x)"
    by (rule newton_gap_step(2) [OF refl])+
  have n: "?l' = ?l - 1 + 2 / exp ?l"
    by (rule newton_gap_step(1) [OF refl, symmetric])
  have l: "0 \<le> ?l" "?l \<le> 2"
    using ln2_bounds assms by linarith+
  have w: "exp ?l \<le> 4" "exp ?l' \<le> 4"
    unfolding e using exp_gap_bounds(3) assms by blast+
  show ?thesis
    using toy_step [OF assms(1) l w(1) n w(2), of n g] unfolding e .
qed

lemma rake_toy:
  "\<exists>w. rake pinv1 [[Fin 1], [Fin 1], [Fin 1]] [Fin 1, Fin 1, Fin 1] [Fin 6] =
          Inr (Some [Fin w, Fin w, Fin w]) \<and>
        2 + 34 / 100000000 \<le> w \<and> w \<le> 4"
proof -
  define d1 where "d1 = 1 - ln (2::real)"
  define d2 where "d2 = newton_gap d1"
  define d3 where "d3 = newton_gap d2"
  define d4 where "d4 = newton_gap d3"
  define d5 where "d5 = newton_gap d4"
  have b1: "3 / 10 \<le> d1" "d1 \<le> 1 / 2"
    using ln2_bounds by (simp_all add: d1_def)
  have b2: "3 / 80 \<le> d2" "d2 \<le> 1 / 8"
    using newton_gap_bounds [OF b1, folded d2_def] by (simp_all add: power2_eq_square)
  have b3: "6 / 10000 \<le> d3" "d3 \<le> 1 / 128"
    using newton_gap_bounds [OF b2, folded d3_def] by (simp_all add: power2_eq_square)
  have b4: "17 / 100000000 \<le> d4" "d4 \<le> 1 / 32768"
    using newton_gap_bounds [OF b3, folded d4_def] by (simp_all add: power2_eq_square)
  have b5: "0 \<le> d5" "d5 \<le> 1 / 2147483648"
    using newton_gap_bounds [OF b4, folded d5_def] by (simp_all add: power2_eq_square)
  have m: "0 \<noteq> max_iter" "Suc 0 \<noteq> max_iter" "Suc (Suc 0) \<noteq> max_iter"
    "Suc (Suc (Suc 0)) \<noteq> max_iter" "Suc (Suc (Suc (Suc 0))) \<noteq> max_iter"
    by (simp_all add: max_iter_def)
  let ?L = "\<lambda>n i l w g. rake_loop pinv1 [[Fin 1], [Fin 1], [Fin 1]] [Fin 1, Fin 1, Fin 1] [Fin 6]
              (Fin 1) n i [Fin l] [Fin w, Fin w, Fin w] g"
  let ?g = "\<lambda>w. Some [Fin w, Fin w, Fin w]"
  have nc: "\<not> \<bar>3 * (2 * exp x) - 6\<bar> / 6 < 1 / 10 ^ 8"
    if "17 / 100000000 \<le> x" "x \<le> 1 / 2" for x :: real
    using exp_gap_bounds(1) [of x] that by simp
  have gs: "?L (Suc n) i (ln 2 + x) (2 * exp x) g =
            ?L n (Suc i) (ln 2 + newton_gap x) (2 * exp (newton_gap x)) (?g (2 * exp (newton_gap x)))"
    if "i \<noteq> max_iter" "0 \<le> x" "x \<le> 1 / 2" "17 / 100000000 \<le> newton_gap x"
      "newton_gap x \<le> 1 / 2" for n i x g
  proof -
    have "0 \<le> newton_gap x" using that(4) by linarith
    from toy_gap_step [OF that(1-3) this that(5), of n g] nc [OF that(4,5)]
    show ?thesis by (simp only: if_False)
  qed
  have s0: "?L (Suc n) 0 0 1 g = ?L n (Suc 0) (ln 2 + d1) (2 * exp d1) (?g (2 * exp d1))" for n g
  proof -
    have l1: "ln 2 + d1 = 1" by (simp add: d1_def)
    have e1: "exp (1::real) = 2 * exp d1"
      using newton_gap_step(2) [OF refl, of d1] unfolding l1 .
    have w1: "exp (1::real) \<le> 4"
      unfolding e1 using exp_gap_bounds(3) [of d1] b1 by linarith
    have l': "(1::real) = 0 - 1 + 2 / exp 0" by simp
    have c: "\<not> \<bar>3 * exp (1::real) - 6\<bar> / 6 < 1 / 10 ^ 8"
      unfolding e1 using nc [of d1] b1 by linarith
    have z: "(0::real) \<le> 0" "(0::real) \<le> 2" "exp (0::real) \<le> 4" by simp_all
    from toy_step [OF m(1) z l' w1, of n g] c
    have "?L (Suc n) 0 0 (exp 0) g = ?L n (Suc 0) 1 (exp 1) (?g (exp 1))"
      by (simp only: if_False)
    then show ?thesis
      unfolding l1 e1 [symmetric] by (simp only: exp_zero)
  qed
  have s1: "?L (Suc n) (Suc 0) (ln 2 + d1) (2 * exp d1) g =
            ?L n (Suc (Suc 0)) (ln 2 + d2) (2 * exp d2) (?g (2 * exp d2))" for n g
    unfolding d2_def by (rule gs [OF m(2)]) (use b1 b2 in \<open>simp_all add: d2_def [symmetric]\<close>)
  have s2: "?L (Suc n) (Suc (Suc 0)) (ln 2 + d2) (2 * exp d2) g =
            ?L n (Suc (Suc (Suc 0))) (ln 2 + d3) (2 * exp d3) (?g (2 * exp d3))" for n g
    unfolding d3_def by (rule gs [OF m(3)]) (use b2 b3 in \<open>simp_all add: d3_def [symmetric]\<close>)
  have s3: "?L (Suc n) (Suc (Suc (Suc 0))) (ln 2 + d3) (2 * exp d3) g =
            ?L n (Suc (Suc (Suc (Suc 0)))) (ln 2 + d4) (2 * exp d4) (?g (2 * exp d4))" for n g
    unfolding d4_def by (rule gs [OF m(4)]) (use b3 b4 in \<open>simp_all add: d4_def [symmetric]\<close>)
  have s4: "?L (Suc n) (Suc (Suc (Suc (Suc 0)))) (ln 2 + d4) (2 * exp d4) g = Inr g" for n g
  proof -
    have "\<bar>3 * (2 * exp d5) - 6\<bar> / 6 \<le> 2 * d5"
      using exp_gap_bounds(2) [of d5] b5 by simp
    then have c: "\<bar>3 * (2 * exp (newton_gap d4)) - 6\<bar> / 6 < 1 / 10 ^ 8"
      using b5 unfolding d5_def by simp
    have "0 \<le> d4" "d4 \<le> 1 / 2" "0 \<le> newton_gap d4" "newton_gap d4 \<le> 1 / 2"
      using b4 b5 unfolding d5_def by linarith+
    from toy_gap_step [OF m(5) this, of n g] c show ?thesis
      by (simp only: if_True)
  qed
  have w: "weights [[Fin 1], [Fin 1], [Fin 1]] [Fin 1, Fin 1, Fin 1] [Fin 0] (Fin 1) =
             [Fin 1, Fin 1, Fin 1]"
    using toy_weights [of 0] by simp
  have "rake pinv1 [[Fin 1], [Fin 1], [Fin 1]] [Fin 1, Fin 1, Fin 1] [Fin 6] =
          ?L max_iter 0 0 1 (?g 1)"
    by (simp add: rake_def Let_def shape_def w del: rake_loop.simps)
  also have "\<dots> = Inr (?g (2 * exp d4))"
    unfolding max_iter_Suc by (simp only: s0 s1 s2 s3 s4)
  finally have r: "rake pinv1 [[Fin 1], [Fin 1], [Fin 1]] [Fin 1, Fin 1, Fin 1] [Fin 6] =
      Inr (?g (2 * exp d4))" .
  have "1 + d4 \<le> exp d4" by simp
  with b4(1) have "2 + 34 / 100000000 \<le> 2 * exp d4" by linarith
  moreover have "2 * exp d4 \<le> 4"
    using exp_gap_bounds(3) [of d4] b4 by simp
  ultimately show ?thesis using r by blast
qed

text \<open>
  C5. On the toy case \<^verbatim>\<open>rake\<close> returns a vector, but not the one at which it converged:
  the test \<^verbatim>\<open>np.max(np.abs(tr - total) / total) < EPS1\<close> leaves the loop by \<^verbatim>\<open>break\<close>
  before \<^verbatim>\<open>g = w1 / d\<close>, so the \<open>g\<close> returned is the one of the iteration before. It
  is not \<open>[2, 2, 2]\<close>, and the total it gives differs from 6 by more than \<open>1e-6\<close>.
\<close>

theorem rake_toy_stale:
  "\<exists>g r. rake pinv1 [[Fin 1], [Fin 1], [Fin 1]] [Fin 1, Fin 1, Fin 1] [Fin 6] = Inr (Some g) \<and>
         g \<noteq> [Fin 2, Fin 2, Fin 2] \<and>
         matT_vec [[Fin 1], [Fin 1], [Fin 1]] (map2 fmul [Fin 1, Fin 1, Fin 1] g) = [Fin r] \<and>
         1 / 1000000 < \<bar>r - 6\<bar>"
proof -
  from rake_toy obtain w
    where r: "rake pinv1 [[Fin 1], [Fin 1], [Fin 1]] [Fin 1, Fin 1, Fin 1] [Fin 6] =
                Inr (Some [Fin w, Fin w, Fin w])"
      and w: "2 + 34 / 100000000 \<le> w" "w \<le> 4"
    by blast
  from w have w0: "0 \<le> w" by linarith
  have "map2 fmul [Fin 1, Fin 1, Fin 1] [Fin w, Fin w, Fin w] = [Fin w, Fin w, Fin w]"
    using w0 w(2) by (simp add: ovf_Fin)
  then have t: "matT_vec [[Fin 1], [Fin 1], [Fin 1]]
                  (map2 fmul [Fin 1, Fin 1, Fin 1] [Fin w, Fin w, Fin w]) = [Fin (3 * w)]"
    using toy_matT_vec [OF w0 w(2)] by (simp only:)
  have n: "[Fin w, Fin w, Fin w] \<noteq> [Fin 2, Fin 2, Fin 2]"
    using w(1) by simp
  have "1 / 1000000 < \<bar>3 * w - 6\<bar>"
    using w(1) by linarith
  with r n t show ?thesis by blast
qed

section \<open>Properties of get\_mask\<close>

lemma shape_5_4:
  assumes "shape a = (5, 4)"
  shows "replicate (fst (shape a)) (replicate (snd (shape a)) True) =
           [[True, True, True, True], [True, True, True, True], [True, True, True, True],
            [True, True, True, True], [True, True, True, True]]"
  using assms by (simp add: numeral_eq_Suc)

lemma mask_drops_5_4:
  "mask_drops [[True, True, True, True], [True, True, True, True], [True, True, True, True],
               [True, True, True, True], [True, True, True, True]] [(2, [1, 3])] =
     Inr [[True, True, True, True], [True, True, True, True], [True, False, True, False],
          [True, True, True, True], [True, True, True, True]]"
  by (simp add: mask_assign_def norm_index_def shape_def)

text \<open>
  C9. Over a 5 x 4 target matrix, the drop spec \<open>{2: (1, 3)}\<close> gives the mask that is
  False at (2,1) and (2,3) and True everywhere else; and for a target matrix of any
  shape, an absent drop spec and an empty one give the all-True matrix of that shape.
\<close>

theorem get_mask_spec:
  "(shape targets = (5, 4) \<longrightarrow>
      get_mask targets (Some [(2, [1, 3])]) =
        Inr [[True, True, True, True], [True, True, True, True], [True, False, True, False],
             [True, True, True, True], [True, True, True, True]]) \<and>
   get_mask t None = Inr (replicate (fst (shape t)) (replicate (snd (shape t)) True)) \<and>
   get_mask t (Some []) = Inr (replicate (fst (shape t)) (replicate (snd (shape t)) True))"
proof (intro conjI impI)
  assume s: "shape targets = (5, 4)"
  show "get_mask targets (Some [(2, [1, 3])]) =
        Inr [[True, True, True, True], [True, True, True, True], [True, False, True, False],
             [True, True, True, True], [True, True, True, True]]"
    unfolding get_mask_def Let_def shape_5_4 [OF s] by (simp only: option.case mask_drops_5_4)
next
  show "get_mask t None = Inr (replicate (fst (shape t)) (replicate (snd (shape t)) True))"
    by (simp add: get_mask_def)
next
  show "get_mask t (Some []) = Inr (replicate (fst (shape t)) (replicate (snd (shape t)) True))"
    by (simp add: get_mask_def)
qed

theorem get_mask_spec_witness:
  "shape (replicate 5 (replicate 4 (Fin 0))) = (5, 4) \<and>
   get_mask (replicate 5 (replicate 4 (Fin 0))) (Some [(2, [1, 3])]) =
     Inr [[True, True, True, True], [True, True, True, True], [True, False, True, False],
          [True, True, True, True], [True, True, True, True]] \<and>
   get_mask [[Fin 1, Fin 2]] None = Inr [[True, True]]"
proof -
  have s: "shape (replicate 5 (replicate 4 (Fin 0))) = (5, 4)"
    by (simp add: shape_def numeral_eq_Suc)
  have n: "get_mask [[Fin 1, Fin 2]] None = Inr [[True, True]]"
    using get_mask_spec [of "[]" "[[Fin 1, Fin 2]]"] by (simp add: shape_def numeral_eq_Suc)
  show ?thesis
    using s n get_mask_spec [of "replicate 5 (replicate 4 (Fin 0))" "[]"] by simp
qed

section \<open>Runs of qrake\<close>

text \<open>
  One record, one area, one characteristic, the target \<open>10^10\<close>, every optional argument
  left out: \<^verbatim>\<open>rake\<close> overflows in its first iteration and returns \<^verbatim>\<open>None\<close>.
\<close>

lemma run_overflowing_target:
  "qrake pinv1 solver [[Fin 1]] [Fin 1] [[Fin 1]] [[Fin 10000000000]] None None None None =
     Inl TypeError"
proof -
  have g: "area_g (rake pinv1) [[Fin 1]] [[Fin 10000000000]] [[True]] [[Fin 1]] 0 = Inr None"
    by (simp add: area_g_def select_def col_def rake_overflow)
  have a: "areas_loop (rake pinv1) [[Fin 1]] [[Fin 10000000000]] [[True]] [[Fin 1]] [0] =
             Inl TypeError"
    by (simp add: area_update_def g)
  have l: "qrake_loop (rake pinv1) [Fin 1] [[Fin 1]] [[Fin 1]] [[Fin 10000000000]] [[True]] 200
             \<lparr>Q = [[Fin 1]], max_weight_absdiff = Fin (10 ^ 9),
              max_targ_abspctdiff = Fin (10 ^ 9), iter = 1, abspctdiff = None, printed = []\<rparr> =
           Inl TypeError"
    by (subst qrake_loop.simps)
      (simp add: continues_def fgt_def TOL_WTDIFF_def sweep_def shape_def a del: areas_loop.simps)
  show ?thesis
    unfolding qrake_def
    by (simp add: get_mask_def select_gfn_def shape_def ovf_Fin l del: power_numeral)
qed

text \<open>
  C1. When \<^verbatim>\<open>rake\<close> returns \<^verbatim>\<open>None\<close>, the loop does not substitute the identity
  adjustment: \<^verbatim>\<open>np.isnan(g)\<close> raises TypeError on \<^verbatim>\<open>None\<close>, and the exception leaves
  \<^verbatim>\<open>qrake\<close>.
\<close>

theorem qrake_raises_on_None:
  "rake pinv1 [[Fin 1]] [Fin 1] [Fin 10000000000] = Inr None \<and>
   qrake pinv1 solver [[Fin 1]] [Fin 1] [[Fin 1]] [[Fin 10000000000]] None None None None =
     Inl TypeError"
  using rake_overflow run_overflowing_target by simp

lemmas sweep_defs = sweep_def abswtdiff_of_def renormalize_def abspctdiff_of_def select_def
  fsum_def fsub_def dot_def col_def shape_def ovf_Fin Let_def fmax_def

lemma ovf_huge: "ovf (2 ^ 1023) = Fin (2 ^ 1023)" "ovf (2 ^ 1023 + 2 ^ 1023) = PInf"
proof -
  have "(0::real) < 2 ^ 1023" by simp
  then show "ovf (2 ^ 1023) = Fin (2 ^ 1023)"
    using DBL_MAX_ge unfolding ovf_def by (simp only: not_less [symmetric] if_False) auto
  have "(2::real) ^ 1023 + 2 ^ 1023 = 2 ^ 1024"
    by (simp only: mult_2 [symmetric] power_Suc [symmetric]) simp
  then show "ovf (2 ^ 1023 + 2 ^ 1023) = PInf"
    using DBL_MAX_lt unfolding ovf_def by (simp only: if_True)
qed

text \<open>
  Two records, two areas, one characteristic; the second record has the shares \<open>2^1023\<close>
  and the characteristic 0, so the targets are met by the first record alone. The row sum
  of the second record overflows in the first sweep.
\<close>

lemma run_infinite_row_sum:
  "qrake pinv1 solver [[Fin (1/2), Fin (1/2)], [Fin (2 ^ 1023), Fin (2 ^ 1023)]]
     [Fin 1, Fin 1] [[Fin 1], [Fin 0]] [[Fin (1/2)], [Fin (1/2)]] None None None None =
   Inr \<lparr>Q = [[Fin (1/2), Fin (1/2)], [Fin 0, Fin 0]], max_weight_absdiff = Fin 1,
        max_targ_abspctdiff = Fin 0, iter = 2, abspctdiff = Some [[Fin 0], [Fin 0]],
        printed = [InfiniteCoefficients]\<rparr>"
proof -
  define h :: real where "h = 2 ^ 1023"
  have h: "ovf h = Fin h" "ovf (h + h) = PInf" "0 < h"
    using ovf_huge by (simp_all add: h_def)
  have h2: "ovf (2 * h) = PInf"
    using h(2) by (simp only: mult_2)
  have w: "weights [[Fin 1], [Fin 0]] [Fin (1/2), Fin h] [Fin 0] (Fin 1) = [Fin (1/2), Fin h]"
    by (simp add: np_defs h)
  have r: "rake pinv1 [[Fin 1], [Fin 0]] [Fin (1/2), Fin h] [Fin (1/2)] = Inr (Some [Fin 1, Fin 1])"
    unfolding rake_def max_iter_Suc
    by (simp add: Let_def shape_def w) (simp add: np_defs h w)
  have g: "area_g (rake pinv1) [[Fin 1], [Fin 0]] [[Fin (1/2)], [Fin (1/2)]] [[True], [True]]
             [[Fin (1/2), Fin (1/2)], [Fin h, Fin h]] j = Inr (Some [Fin 1, Fin 1])" if "j < 2" for j
  proof -
    from that have "j = 0 \<or> j = 1" by auto
    then show ?thesis
      by (auto simp add: area_g_def select_def col_def r)
  qed
  have a: "areas_loop (rake pinv1) [[Fin 1], [Fin 0]] [[Fin (1/2)], [Fin (1/2)]] [[True], [True]]
             [[Fin (1/2), Fin (1/2)], [Fin h, Fin h]] [0, Suc 0] =
           Inr [[Fin (1/2), Fin (1/2)], [Fin h, Fin h]]"
    by (simp add: area_update_def g col_times_def set_col_def col_def ovf_Fin h)
  have s: "sweep (rake pinv1) [Fin 1, Fin 1] [[Fin 1], [Fin 0]] [[Fin 1], [Fin 0]]
             [[Fin (1/2)], [Fin (1/2)]] [[True], [True]]
             \<lparr>Q = [[Fin (1/2), Fin (1/2)], [Fin h, Fin h]], max_weight_absdiff = a0,
              max_targ_abspctdiff = b0, iter = 1, abspctdiff = None, printed = []\<rparr> =
           Inr \<lparr>Q = [[Fin (1/2), Fin (1/2)], [Fin 0, Fin 0]], max_weight_absdiff = TOL_WTDIFF,
                max_targ_abspctdiff = Fin 0, iter = 2, abspctdiff = Some [[Fin 0], [Fin 0]],
                printed = [InfiniteCoefficients]\<rparr>" for a0 b0
  proof -
    show ?thesis
      by (simp add: sweep_defs a h h2 del: areas_loop.simps)
  qed
  have l: "qrake_loop (rake pinv1) [Fin 1, Fin 1] [[Fin 1], [Fin 0]] [[Fin 1], [Fin 0]]
             [[Fin (1/2)], [Fin (1/2)]] [[True], [True]] 200
             \<lparr>Q = [[Fin (1/2), Fin (1/2)], [Fin h, Fin h]], max_weight_absdiff = Fin (10 ^ 9),
              max_targ_abspctdiff = Fin (10 ^ 9), iter = 1, abspctdiff = None, printed = []\<rparr> =
           Inr \<lparr>Q = [[Fin (1/2), Fin (1/2)], [Fin 0, Fin 0]], max_weight_absdiff = TOL_WTDIFF,
                max_targ_abspctdiff = Fin 0, iter = 2, abspctdiff = Some [[Fin 0], [Fin 0]],
                printed = [InfiniteCoefficients]\<rparr>"
    apply (subst qrake_loop.simps)
    apply (simp add: continues_def fgt_def TOL_WTDIFF_def s)
    apply (subst qrake_loop.simps)
    apply (simp add: continues_def fgt_def TOL_WTDIFF_def TOL_TARGPCTDIFF_def)
    done
  show ?thesis
    unfolding qrake_def h_def [symmetric]
    by (simp add: get_mask_def select_gfn_def shape_def ovf_Fin l abswtdiff_of_def fsum_def
        fsub_def select_def fmax_def del: power_numeral)
qed

text \<open>
  C7. An infinite row sum does not force another iteration. The clamp sets
  \<^verbatim>\<open>max_weight_absdiff\<close> to \<^verbatim>\<open>TOL_WTDIFF\<close> itself, which the test
  \<^verbatim>\<open>max_weight_absdiff > TOL_WTDIFF\<close> takes as within tolerance. In the run above the line
  is printed, and the loop ends after this one sweep (\<open>iter = 2\<close>, no line of the iteration
  cap) with the second row of \<open>Q\<close> renormalized to zeros.
\<close>

theorem qrake_infinite_row_sum_exits:
  "qrake pinv1 solver [[Fin (1/2), Fin (1/2)], [Fin (2 ^ 1023), Fin (2 ^ 1023)]]
     [Fin 1, Fin 1] [[Fin 1], [Fin 0]] [[Fin (1/2)], [Fin (1/2)]] None None None None =
   Inr \<lparr>Q = [[Fin (1/2), Fin (1/2)], [Fin 0, Fin 0]], max_weight_absdiff = Fin 1,
        max_targ_abspctdiff = Fin 0, iter = 2, abspctdiff = Some [[Fin 0], [Fin 0]],
        printed = [InfiniteCoefficients]\<rparr>"
  by (rule run_infinite_row_sum)

section \<open>The areas within a sweep\<close>

lemma col_times_length: "col_times c g = Inr c' \<Longrightarrow> length c' = length c"
  by (auto simp: col_times_def split: if_splits)

lemma col_set_col_other:
  assumes "j' \<noteq> j" and "length c = length A"
  shows "col (set_col A j c) j' = col A j'"
proof -
  have "map (\<lambda>r. r ! j') (map2 (\<lambda>r v. r[j := v]) A c) = map (\<lambda>r. r ! j') (map fst (zip A c))"
    using assms(1) by (simp add: comp_def case_prod_beta)
  also have "map fst (zip A c) = A"
    using assms(2) by simp
  finally show ?thesis
    by (simp add: col_def set_col_def)
qed

lemma area_update_other_col:
  assumes "area_update gfn xmat_wh targets msk A j = Inr A'" and "j' \<noteq> j"
  shows "col A' j' = col A j'"
proof -
  from assms(1) obtain c where c: "length c = length (col A j)" and A': "A' = set_col A j c"
    by (auto simp: area_update_def Let_def dest: col_times_length split: sum.splits option.splits)
  from c have "length c = length A" by (simp add: col_def)
  with assms(2) A' show ?thesis by (simp add: col_set_col_other)
qed

lemma areas_loop_other_col:
  "areas_loop gfn xmat_wh targets msk A js = Inr A' \<Longrightarrow> j \<notin> set js \<Longrightarrow> col A' j = col A j"
proof (induction js arbitrary: A)
  case Nil
  then show ?case by simp
next
  case (Cons a js)
  from Cons.prems(1) obtain A1 where u: "area_update gfn xmat_wh targets msk A a = Inr A1"
    and r: "areas_loop gfn xmat_wh targets msk A1 js = Inr A'"
    by (auto split: sum.splits)
  from Cons.prems(2) have "j \<noteq> a" "j \<notin> set js" by auto
  with Cons.IH [OF r] area_update_other_col [OF u] show ?case by simp
qed

lemma areas_loop_append:
  "areas_loop gfn xmat_wh targets msk A (xs @ ys) =
     (case areas_loop gfn xmat_wh targets msk A xs of
        Inl e \<Rightarrow> Inl e
      | Inr A' \<Rightarrow> areas_loop gfn xmat_wh targets msk A' ys)"
  by (induction xs arbitrary: A) (auto split: sum.splits)

lemma area_g_cong: "col A j = col B j \<Longrightarrow>
   area_g gfn xmat_wh targets msk A j = area_g gfn xmat_wh targets msk B j"
  by (simp add: area_g_def)

text \<open>
  C6, as amended. Within a sweep the areas are processed in index order on the current
  \<open>Q\<close>: area \<open>j\<close> is updated on the matrix \<open>Aj\<close> that the areas before it have left.
  But each area reads and writes its own column only, so the adjustment computed for
  area \<open>j\<close> on \<open>Aj\<close> is the one computed on the matrix \<open>A\<close> of the sweep's start: it
  does not depend on the updates of the earlier areas.
\<close>

theorem area_g_independent:
  assumes "j < m" and "areas_loop gfn xmat_wh targets msk A [0..<j] = Inr Aj"
  shows "areas_loop gfn xmat_wh targets msk A [0..<m] =
           (case area_update gfn xmat_wh targets msk Aj j of
              Inl e \<Rightarrow> Inl e
            | Inr A' \<Rightarrow> areas_loop gfn xmat_wh targets msk A' [Suc j..<m]) \<and>
         area_g gfn xmat_wh targets msk Aj j = area_g gfn xmat_wh targets msk A j"
proof
  from assms(1) have "[0..<m] = [0..<j] @ j # [Suc j..<m]"
    by (metis le_add2 le_add_same_cancel2 less_imp_le_nat upt_add_eq_append upt_conv_Cons le_Suc_ex)
  then show "areas_loop gfn xmat_wh targets msk A [0..<m] =
           (case area_update gfn xmat_wh targets msk Aj j of
              Inl e \<Rightarrow> Inl e
            | Inr A' \<Rightarrow> areas_loop gfn xmat_wh targets msk A' [Suc j..<m])"
    by (simp add: areas_loop_append assms(2))
next
  have "col Aj j = col A j"
    using areas_loop_other_col [OF assms(2)] by simp
  then show "area_g gfn xmat_wh targets msk Aj j = area_g gfn xmat_wh targets msk A j"
    by (rule area_g_cong)
qed

text \<open>
  The toy case with two areas: the update of area 0 multiplies column 0 by an
  adjustment of at least 2.
\<close>

lemma toy_area_update:
  "\<exists>w. area_update (rake pinv1) [[Fin 1], [Fin 1], [Fin 1]] [[Fin 6], [Fin 6]] [[True], [True]]
          [[Fin 1, Fin 1], [Fin 1, Fin 1], [Fin 1, Fin 1]] 0 =
        Inr [[Fin w, Fin 1], [Fin w, Fin 1], [Fin w, Fin 1]] \<and> 2 \<le> w"
proof -
  from rake_toy obtain w
    where r: "rake pinv1 [[Fin 1], [Fin 1], [Fin 1]] [Fin 1, Fin 1, Fin 1] [Fin 6] =
                Inr (Some [Fin w, Fin w, Fin w])"
      and w: "2 + 34 / 100000000 \<le> w" "w \<le> 4"
    by blast
  from w have w0: "0 \<le> w" "w \<noteq> 0" "2 \<le> w" by linarith+
  have g: "area_g (rake pinv1) [[Fin 1], [Fin 1], [Fin 1]] [[Fin 6], [Fin 6]] [[True], [True]]
          [[Fin 1, Fin 1], [Fin 1, Fin 1], [Fin 1, Fin 1]] 0 = Inr (Some [Fin w, Fin w, Fin w])"
    by (simp add: area_g_def select_def col_def r)
  have "area_update (rake pinv1) [[Fin 1], [Fin 1], [Fin 1]] [[Fin 6], [Fin 6]] [[True], [True]]
          [[Fin 1, Fin 1], [Fin 1, Fin 1], [Fin 1, Fin 1]] 0 =
        Inr [[Fin w, Fin 1], [Fin w, Fin 1], [Fin w, Fin 1]]"
    using w0 w(2) by (simp add: area_update_def g col_times_def set_col_def col_def ovf_Fin)
  with w0(3) show ?thesis by blast
qed

text \<open>
  The dependence that C6 states fails there: area 0 has changed \<open>Q\<close>, and the
  adjustment computed for area 1 on the changed matrix is the one computed on the
  matrix of the sweep's start.
\<close>

theorem area_g_dependence_counterexample:
  "\<exists>Q1. areas_loop (rake pinv1) [[Fin 1], [Fin 1], [Fin 1]] [[Fin 6], [Fin 6]] [[True], [True]]
           [[Fin 1, Fin 1], [Fin 1, Fin 1], [Fin 1, Fin 1]] [0..<1] = Inr Q1 \<and>
         Q1 \<noteq> [[Fin 1, Fin 1], [Fin 1, Fin 1], [Fin 1, Fin 1]] \<and>
         area_g (rake pinv1) [[Fin 1], [Fin 1], [Fin 1]] [[Fin 6], [Fin 6]] [[True], [True]] Q1 1 =
         area_g (rake pinv1) [[Fin 1], [Fin 1], [Fin 1]] [[Fin 6], [Fin 6]] [[True], [True]]
           [[Fin 1, Fin 1], [Fin 1, Fin 1], [Fin 1, Fin 1]] 1"
proof -
  from toy_area_update obtain w
    where u: "area_update (rake pinv1) [[Fin 1], [Fin 1], [Fin 1]] [[Fin 6], [Fin 6]] [[True], [True]]
          [[Fin 1, Fin 1], [Fin 1, Fin 1], [Fin 1, Fin 1]] 0 =
        Inr [[Fin w, Fin 1], [Fin w, Fin 1], [Fin w, Fin 1]]" and w: "2 \<le> w"
    by blast
  let ?Q1 = "[[Fin w, Fin 1], [Fin w, Fin 1], [Fin w, Fin 1]]"
  have a: "areas_loop (rake pinv1) [[Fin 1], [Fin 1], [Fin 1]] [[Fin 6], [Fin 6]] [[True], [True]]
           [[Fin 1, Fin 1], [Fin 1, Fin 1], [Fin 1, Fin 1]] [0..<1] = Inr ?Q1"
    by (simp add: u)
  have n: "?Q1 \<noteq> [[Fin 1, Fin 1], [Fin 1, Fin 1], [Fin 1, Fin 1]]"
    using w by simp
  have "col ?Q1 1 = col [[Fin 1, Fin 1], [Fin 1, Fin 1], [Fin 1, Fin 1]] 1"
    by (simp add: col_def)
  then have "area_g (rake pinv1) [[Fin 1], [Fin 1], [Fin 1]] [[Fin 6], [Fin 6]] [[True], [True]] ?Q1 1 =
         area_g (rake pinv1) [[Fin 1], [Fin 1], [Fin 1]] [[Fin 6], [Fin 6]] [[True], [True]]
           [[Fin 1, Fin 1], [Fin 1, Fin 1], [Fin 1, Fin 1]] 1"
    by (rule area_g_cong)
  with a n show ?thesis by blast
qed

theorem area_g_independent_witness:
  "\<exists>Aj. (1::nat) < 2 \<and>
     areas_loop (rake pinv1) [[Fin 1], [Fin 1], [Fin 1]] [[Fin 6], [Fin 6]] [[True], [True]]
       [[Fin 1, Fin 1], [Fin 1, Fin 1], [Fin 1, Fin 1]] [0..<1] = Inr Aj \<and>
     areas_loop (rake pinv1) [[Fin 1], [Fin 1], [Fin 1]] [[Fin 6], [Fin 6]] [[True], [True]]
       [[Fin 1, Fin 1], [Fin 1, Fin 1], [Fin 1, Fin 1]] [0..<2] =
       (case area_update (rake pinv1) [[Fin 1], [Fin 1], [Fin 1]] [[Fin 6], [Fin 6]] [[True], [True]]
               Aj 1 of
          Inl e \<Rightarrow> Inl e
        | Inr A' \<Rightarrow> areas_loop (rake pinv1) [[Fin 1], [Fin 1], [Fin 1]] [[Fin 6], [Fin 6]]
                      [[True], [True]] A' [Suc 1..<2]) \<and>
     area_g (rake pinv1) [[Fin 1], [Fin 1], [Fin 1]] [[Fin 6], [Fin 6]] [[True], [True]] Aj 1 =
     area_g (rake pinv1) [[Fin 1], [Fin 1], [Fin 1]] [[Fin 6], [Fin 6]] [[True], [True]]
       [[Fin 1, Fin 1], [Fin 1, Fin 1], [Fin 1, Fin 1]] 1"
proof -
  from toy_area_update obtain w
    where u: "area_update (rake pinv1) [[Fin 1], [Fin 1], [Fin 1]] [[Fin 6], [Fin 6]] [[True], [True]]
          [[Fin 1, Fin 1], [Fin 1, Fin 1], [Fin 1, Fin 1]] 0 =
        Inr [[Fin w, Fin 1], [Fin w, Fin 1], [Fin w, Fin 1]]"
    by blast
  have a: "areas_loop (rake pinv1) [[Fin 1], [Fin 1], [Fin 1]] [[Fin 6], [Fin 6]] [[True], [True]]
           [[Fin 1, Fin 1], [Fin 1, Fin 1], [Fin 1, Fin 1]] [0..<1] =
           Inr [[Fin w, Fin 1], [Fin w, Fin 1], [Fin w, Fin 1]]"
    by (simp add: u)
  have l: "(1::nat) < 2" by simp
  from area_g_independent [OF l a] l a show ?thesis
    by blast
qed

section \<open>The outer loop\<close>

lemma sweep_iter: "sweep gfn wh xmat xmat_wh targets msk st = Inr st' \<Longrightarrow> iter st' = iter st + 1"
  by (auto simp: sweep_def Let_def split: sum.splits)

lemma qrake_loop_iter:
  "qrake_loop gfn wh xmat xmat_wh targets msk maxiter st = Inr st' \<Longrightarrow>
     iter st \<le> iter st' \<and> iter st' \<le> max (iter st) (maxiter + 1)"
proof (induction gfn wh xmat xmat_wh targets msk maxiter st rule: qrake_loop.induct)
  case (1 gfn wh xmat xmat_wh targets msk maxiter st)
  show ?case
  proof (cases "continues maxiter st")
    case False
    with "1.prems" show ?thesis by (simp add: qrake_loop.simps)
  next
    case True
    with "1.prems" obtain st1 where s: "sweep gfn wh xmat xmat_wh targets msk st = Inr st1"
      and r: "qrake_loop gfn wh xmat xmat_wh targets msk maxiter st1 = Inr st'"
      by (subst (asm) qrake_loop.simps) (auto split: sum.splits)
    from "1.IH" [OF True s r] sweep_iter [OF s] True show ?thesis
      by (auto simp: continues_def)
  qed
qed

lemma np_max_Inr: "xs \<noteq> [] \<Longrightarrow> \<exists>v. np_max xs = Inr v"
  by (cases xs) simp_all

lemma np_max_nonempty: "np_max xs = Inr v \<Longrightarrow> xs \<noteq> []"
  by (cases xs) simp_all

lemma select_nonempty: "select xs bs \<noteq> [] \<Longrightarrow> xs \<noteq> []"
  by (auto simp: select_def)

text \<open>After a sweep, nothing of what follows the loop raises.\<close>

lemma sweep_post:
  assumes "sweep gfn wh xmat xmat_wh targets msk st0 = Inr st"
  shows "\<exists>mw apd p q. np_max (abswtdiff_of (Q st)) = Inr mw \<and> abspctdiff st = Some apd \<and>
           np_max (concat apd) = Inr p \<and> np_max (select (concat apd) (concat msk)) = Inr q"
proof -
  from assms obtain Q1 mw0 mt where
    m: "np_max (abswtdiff_of Q1) = Inr mw0" and
    t: "np_max (select (concat (abspctdiff_of (renormalize Q1) wh xmat targets)) (concat msk)) = Inr mt" and
    q: "Q st = renormalize Q1" and
    a: "abspctdiff st = Some (abspctdiff_of (renormalize Q1) wh xmat targets)"
    by (auto simp: sweep_def Let_def split: sum.splits)
  from m have "Q1 \<noteq> []"
    by (auto simp: abswtdiff_of_def dest: np_max_nonempty)
  then have "abswtdiff_of (Q st) \<noteq> []"
    by (simp add: q abswtdiff_of_def renormalize_def)
  then obtain mw where "np_max (abswtdiff_of (Q st)) = Inr mw"
    using np_max_Inr by blast
  moreover from t have "concat (abspctdiff_of (renormalize Q1) wh xmat targets) \<noteq> []"
    using np_max_nonempty select_nonempty by blast
  then obtain p where "np_max (concat (abspctdiff_of (renormalize Q1) wh xmat targets)) = Inr p"
    using np_max_Inr by blast
  ultimately show ?thesis
    using a t by auto
qed

lemma sweep_printed:
  "sweep gfn wh xmat xmat_wh targets msk st0 = Inr st \<Longrightarrow>
     MaxIterExceeded \<notin> set (printed st0) \<Longrightarrow> MaxIterExceeded \<notin> set (printed st)"
  by (auto simp: sweep_def Let_def split: sum.splits if_splits)

lemma qrake_loop_result:
  "qrake_loop gfn wh xmat xmat_wh targets msk maxiter st = Inr st' \<Longrightarrow>
     (st' = st \<and> \<not> continues maxiter st \<or>
      (\<exists>st0. iter st \<le> iter st0 \<and> sweep gfn wh xmat xmat_wh targets msk st0 = Inr st')) \<and>
     (MaxIterExceeded \<notin> set (printed st) \<longrightarrow> MaxIterExceeded \<notin> set (printed st'))"
proof (induction gfn wh xmat xmat_wh targets msk maxiter st rule: qrake_loop.induct)
  case (1 gfn wh xmat xmat_wh targets msk maxiter st)
  show ?case
  proof (cases "continues maxiter st")
    case False
    with "1.prems" show ?thesis by (simp add: qrake_loop.simps)
  next
    case True
    with "1.prems" obtain st1 where s: "sweep gfn wh xmat xmat_wh targets msk st = Inr st1"
      and r: "qrake_loop gfn wh xmat xmat_wh targets msk maxiter st1 = Inr st'"
      by (subst (asm) qrake_loop.simps) (auto split: sum.splits)
    have i: "iter st \<le> iter st1"
      using sweep_iter [OF s] by simp
    from "1.IH" [OF True s r] have
      c: "st' = st1 \<and> \<not> continues maxiter st1 \<or>
          (\<exists>st0. iter st1 \<le> iter st0 \<and> sweep gfn wh xmat xmat_wh targets msk st0 = Inr st')" and
      p: "MaxIterExceeded \<notin> set (printed st1) \<longrightarrow> MaxIterExceeded \<notin> set (printed st')"
      by simp_all
    from c have "\<exists>st0. iter st \<le> iter st0 \<and> sweep gfn wh xmat xmat_wh targets msk st0 = Inr st'"
    proof
      assume "st' = st1 \<and> \<not> continues maxiter st1"
      with s show ?thesis by auto
    next
      assume "\<exists>st0. iter st1 \<le> iter st0 \<and> sweep gfn wh xmat xmat_wh targets msk st0 = Inr st'"
      then obtain st0 where "iter st1 \<le> iter st0" "sweep gfn wh xmat xmat_wh targets msk st0 = Inr st'"
        by blast
      with i show ?thesis by (intro exI [of _ st0]) simp
    qed
    moreover have "MaxIterExceeded \<notin> set (printed st) \<longrightarrow> MaxIterExceeded \<notin> set (printed st')"
      using p sweep_printed [OF s] by blast
    ultimately show ?thesis by blast
  qed
qed

lemma qrake_loop_error:
  "qrake_loop gfn wh xmat xmat_wh targets msk maxiter st = Inl e \<Longrightarrow>
     \<exists>st0. sweep gfn wh xmat xmat_wh targets msk st0 = Inl e"
proof (induction gfn wh xmat xmat_wh targets msk maxiter st rule: qrake_loop.induct)
  case (1 gfn wh xmat xmat_wh targets msk maxiter st)
  show ?case
  proof (cases "continues maxiter st")
    case False
    with "1.prems" show ?thesis by (simp add: qrake_loop.simps)
  next
    case True
    show ?thesis
    proof (cases "sweep gfn wh xmat xmat_wh targets msk st")
      case (Inl e')
      with True "1.prems" have "e' = e"
        by (subst (asm) qrake_loop.simps) simp
      with Inl show ?thesis by blast
    next
      case (Inr st1)
      with True "1.prems" have "qrake_loop gfn wh xmat xmat_wh targets msk maxiter st1 = Inl e"
        by (subst (asm) qrake_loop.simps) simp
      from "1.IH" [OF True Inr this] show ?thesis .
    qed
  qed
qed

text \<open>
  The loop and the sweeps: a run of the loop that returns has made some number of sweeps
  and fails the test at the end; one that raises has made some sweeps, passed the test, and
  the next sweep has raised.
\<close>

lemma sweeps_iter:
  "sweeps gfn wh xmat xmat_wh targets msk n st = Inr st' \<Longrightarrow> iter st' = iter st + int n"
proof (induction n arbitrary: st)
  case 0
  then show ?case by simp
next
  case (Suc n)
  from Suc.prems obtain st1 where s: "sweep gfn wh xmat xmat_wh targets msk st = Inr st1"
    and r: "sweeps gfn wh xmat xmat_wh targets msk n st1 = Inr st'"
    by (auto split: sum.splits)
  from Suc.IH [OF r] sweep_iter [OF s] show ?case by simp
qed

lemma qrake_loop_sweeps:
  "qrake_loop gfn wh xmat xmat_wh targets msk maxiter st = Inr st' \<Longrightarrow>
     \<exists>n. sweeps gfn wh xmat xmat_wh targets msk n st = Inr st' \<and> \<not> continues maxiter st'"
proof (induction gfn wh xmat xmat_wh targets msk maxiter st rule: qrake_loop.induct)
  case (1 gfn wh xmat xmat_wh targets msk maxiter st)
  show ?case
  proof (cases "continues maxiter st")
    case False
    with "1.prems" have "st' = st" by (simp add: qrake_loop.simps)
    with False have "sweeps gfn wh xmat xmat_wh targets msk 0 st = Inr st' \<and> \<not> continues maxiter st'"
      by simp
    then show ?thesis ..
  next
    case True
    with "1.prems" obtain st1 where s: "sweep gfn wh xmat xmat_wh targets msk st = Inr st1"
      and r: "qrake_loop gfn wh xmat xmat_wh targets msk maxiter st1 = Inr st'"
      by (subst (asm) qrake_loop.simps) (auto split: sum.splits)
    from "1.IH" [OF True s r] obtain n
      where "sweeps gfn wh xmat xmat_wh targets msk n st1 = Inr st'" and c: "\<not> continues maxiter st'"
      by blast
    with s have "sweeps gfn wh xmat xmat_wh targets msk (Suc n) st = Inr st'" by simp
    with c show ?thesis by blast
  qed
qed

lemma qrake_loop_error_sweeps:
  "qrake_loop gfn wh xmat xmat_wh targets msk maxiter st = Inl e \<Longrightarrow>
     \<exists>k st0. sweeps gfn wh xmat xmat_wh targets msk k st = Inr st0 \<and> continues maxiter st0 \<and>
            sweep gfn wh xmat xmat_wh targets msk st0 = Inl e"
proof (induction gfn wh xmat xmat_wh targets msk maxiter st rule: qrake_loop.induct)
  case (1 gfn wh xmat xmat_wh targets msk maxiter st)
  show ?case
  proof (cases "continues maxiter st")
    case False
    with "1.prems" show ?thesis by (simp add: qrake_loop.simps)
  next
    case True
    show ?thesis
    proof (cases "sweep gfn wh xmat xmat_wh targets msk st")
      case (Inl e')
      with True "1.prems" have "e' = e"
        by (subst (asm) qrake_loop.simps) simp
      with Inl True have "sweeps gfn wh xmat xmat_wh targets msk 0 st = Inr st \<and> continues maxiter st \<and>
            sweep gfn wh xmat xmat_wh targets msk st = Inl e"
        by simp
      then show ?thesis by blast
    next
      case (Inr st1)
      with True "1.prems" have "qrake_loop gfn wh xmat xmat_wh targets msk maxiter st1 = Inl e"
        by (subst (asm) qrake_loop.simps) simp
      from "1.IH" [OF True Inr this] obtain k st0
        where "sweeps gfn wh xmat xmat_wh targets msk k st1 = Inr st0" and c: "continues maxiter st0"
          and e: "sweep gfn wh xmat xmat_wh targets msk st0 = Inl e"
        by blast
      with Inr have "sweeps gfn wh xmat xmat_wh targets msk (Suc k) st = Inr st0" by simp
      with c e show ?thesis by blast
    qed
  qed
qed

text \<open>The loop that has reached a state returns that very state exactly when the test fails there.\<close>

lemma qrake_loop_exit:
  "(qrake_loop gfn wh xmat xmat_wh targets msk maxiter st = Inr st) = (\<not> continues maxiter st)"
proof (cases "continues maxiter st")
  case False
  then show ?thesis by (simp add: qrake_loop.simps)
next
  case True
  have "qrake_loop gfn wh xmat xmat_wh targets msk maxiter st \<noteq> Inr st"
  proof
    assume r: "qrake_loop gfn wh xmat xmat_wh targets msk maxiter st = Inr st"
    with True obtain st1 where s: "sweep gfn wh xmat xmat_wh targets msk st = Inr st1"
      and r1: "qrake_loop gfn wh xmat xmat_wh targets msk maxiter st1 = Inr st"
      by (subst (asm) qrake_loop.simps) (auto split: sum.splits)
    from qrake_loop_iter [OF r1] sweep_iter [OF s] show False by simp
  qed
  with True show ?thesis by simp
qed

lemma qrake_loop_step:
  assumes "continues maxiter st" and "sweep gfn wh xmat xmat_wh targets msk st = Inr st'"
  shows "qrake_loop gfn wh xmat xmat_wh targets msk maxiter st =
         qrake_loop gfn wh xmat xmat_wh targets msk maxiter st'"
  using assms by (subst qrake_loop.simps) simp

text \<open>
  One record, one area, a characteristic that is 0 and the target 0: the target is met,
  and its percent difference is \<open>0 / 0\<close>.
\<close>

lemma rake_zero_target: "rake pinv1 [[Fin 0]] [Fin 1] [Fin 0] = Inr (Some [Fin 1])"
proof -
  have w: "weights [[Fin 0]] [Fin 1] [Fin 0] (Fin 1) = [Fin 1]"
    by (simp add: np_defs)
  have step: "rake_loop pinv1 [[Fin 0]] [Fin 1] [Fin 0] (Fin 1) (Suc n) i [Fin 0] [Fin 1] g =
     rake_loop pinv1 [[Fin 0]] [Fin 1] [Fin 0] (Fin 1) n (Suc i) [Fin 0] [Fin 1] (Some [Fin 1])"
    if "i \<noteq> max_iter" for n i g
    using that by (simp add: np_defs)
  have "rake pinv1 [[Fin 0]] [Fin 1] [Fin 0] =
        rake_loop pinv1 [[Fin 0]] [Fin 1] [Fin 0] (Fin 1) max_iter 0 [Fin 0] [Fin 1] (Some [Fin 1])"
    by (simp add: rake_def Let_def w shape_def)
  also have "\<dots> = Inr (Some [Fin 1])"
    unfolding max_iter_Suc by (simp add: step max_iter_def del: rake_loop.simps(2))
  finally show ?thesis .
qed

lemma sweep_zero_target:
  "sweep (rake pinv1) [Fin 1] [[Fin 0]] [[Fin 0]] [[Fin 0]] [[True]]
     \<lparr>Q = [[Fin 1]], max_weight_absdiff = a, max_targ_abspctdiff = b, iter = 1,
      abspctdiff = None, printed = []\<rparr> =
   Inr \<lparr>Q = [[Fin 1]], max_weight_absdiff = Fin 0, max_targ_abspctdiff = NaN, iter = 2,
        abspctdiff = Some [[NaN]], printed = []\<rparr>"
proof -
  have g: "area_g (rake pinv1) [[Fin 0]] [[Fin 0]] [[True]] [[Fin 1]] 0 = Inr (Some [Fin 1])"
    by (simp add: area_g_def select_def col_def rake_zero_target)
  have a: "areas_loop (rake pinv1) [[Fin 0]] [[Fin 0]] [[True]] [[Fin 1]] [0] = Inr [[Fin 1]]"
    by (simp add: area_update_def g col_times_def set_col_def col_def ovf_Fin)
  show ?thesis
    by (simp add: sweep_defs a del: areas_loop.simps)
qed

lemma run_zero_target:
  "qrake pinv1 solver [[Fin 1]] [Fin 1] [[Fin 0]] [[Fin 0]] None None None None =
   Inr \<lparr>Q = [[Fin 1]], max_weight_absdiff = Fin 0, max_targ_abspctdiff = NaN, iter = 2,
        abspctdiff = Some [[NaN]], printed = []\<rparr>"
proof -
  have l: "qrake_loop (rake pinv1) [Fin 1] [[Fin 0]] [[Fin 0]] [[Fin 0]] [[True]] 200
             \<lparr>Q = [[Fin 1]], max_weight_absdiff = Fin (10 ^ 9),
              max_targ_abspctdiff = Fin (10 ^ 9), iter = 1, abspctdiff = None, printed = []\<rparr> =
           Inr \<lparr>Q = [[Fin 1]], max_weight_absdiff = Fin 0, max_targ_abspctdiff = NaN, iter = 2,
                abspctdiff = Some [[NaN]], printed = []\<rparr>"
    apply (subst qrake_loop.simps)
    apply (simp add: continues_def fgt_def TOL_WTDIFF_def sweep_zero_target)
    apply (subst qrake_loop.simps)
    apply (simp add: continues_def fgt_def TOL_WTDIFF_def TOL_TARGPCTDIFF_def)
    done
  show ?thesis
    unfolding qrake_def
    by (simp add: get_mask_def select_gfn_def shape_def ovf_Fin l abswtdiff_of_def fsum_def
        fsub_def select_def del: power_numeral)
qed

text \<open>
  A sweep that leaves \<open>Q\<close> as it is and misses a target: the loop runs to the cap.
\<close>

lemma loop_stationary:
  assumes sw: "\<And>i a b ap.
      sweep gfn wh xmat xmat_wh targets msk
        \<lparr>Q = Qm, max_weight_absdiff = a, max_targ_abspctdiff = b, iter = i, abspctdiff = ap,
         printed = []\<rparr> =
      Inr \<lparr>Q = Qm, max_weight_absdiff = mw, max_targ_abspctdiff = mt, iter = i + 1,
           abspctdiff = Some apd, printed = []\<rparr>"
    and mt: "fgt mt TOL_TARGPCTDIFF"
    and i: "1 \<le> i" "i \<le> c" and b: "fgt b TOL_TARGPCTDIFF"
  shows "qrake_loop gfn wh xmat xmat_wh targets msk c
           \<lparr>Q = Qm, max_weight_absdiff = a, max_targ_abspctdiff = b, iter = i, abspctdiff = ap,
            printed = []\<rparr> =
         Inr \<lparr>Q = Qm, max_weight_absdiff = mw, max_targ_abspctdiff = mt, iter = c + 1,
              abspctdiff = Some apd, printed = []\<rparr>"
  using i b
proof (induction "nat (c - i)" arbitrary: i a b ap)
  case 0
  then have i: "i = c" by simp
  show ?case
    apply (subst qrake_loop.simps)
    apply (simp add: continues_def "0.prems" i sw)
    apply (subst qrake_loop.simps)
    apply (simp add: continues_def)
    done
next
  case (Suc k)
  then have k: "k = nat (c - (i + 1))" "1 \<le> i + 1" "i + 1 \<le> c" by simp_all
  show ?case
    apply (subst qrake_loop.simps)
    apply (simp add: continues_def Suc.prems sw)
    apply (rule Suc.hyps(1) [OF k mt])
    done
qed

text \<open>
  One record, a characteristic that is 0 and the target 1: no weight meets the target,
  every adjustment of \<^verbatim>\<open>rake\<close> is 1, and the percent difference stays 100.
\<close>

lemma sweep_infeasible:
  "sweep (rake pinv1) [Fin 1] [[Fin 0]] [[Fin 0]] [[Fin 1]] [[True]]
     \<lparr>Q = [[Fin 1]], max_weight_absdiff = a, max_targ_abspctdiff = b, iter = i,
      abspctdiff = ap, printed = []\<rparr> =
   Inr \<lparr>Q = [[Fin 1]], max_weight_absdiff = Fin 0, max_targ_abspctdiff = Fin 100, iter = i + 1,
        abspctdiff = Some [[Fin 100]], printed = []\<rparr>"
proof -
  have g: "area_g (rake pinv1) [[Fin 0]] [[Fin 1]] [[True]] [[Fin 1]] 0 = Inr (Some [Fin 1])"
    by (simp add: area_g_def select_def col_def rake_infeasible)
  have a: "areas_loop (rake pinv1) [[Fin 0]] [[Fin 1]] [[True]] [[Fin 1]] [0] = Inr [[Fin 1]]"
    by (simp add: area_update_def g col_times_def set_col_def col_def ovf_Fin)
  show ?thesis
    by (simp add: sweep_defs a del: areas_loop.simps)
qed

lemma loop_infeasible:
  assumes "1 \<le> c"
  shows "qrake_loop (rake pinv1) [Fin 1] [[Fin 0]] [[Fin 0]] [[Fin 1]] [[True]] c
           \<lparr>Q = [[Fin 1]], max_weight_absdiff = Fin (10 ^ 9), max_targ_abspctdiff = Fin (10 ^ 9),
            iter = 1, abspctdiff = None, printed = []\<rparr> =
         Inr \<lparr>Q = [[Fin 1]], max_weight_absdiff = Fin 0, max_targ_abspctdiff = Fin 100,
              iter = c + 1, abspctdiff = Some [[Fin 100]], printed = []\<rparr>"
proof -
  have f: "fgt (Fin 100) TOL_TARGPCTDIFF" "fgt (Fin (10 ^ 9)) TOL_TARGPCTDIFF"
    by (simp_all add: fgt_def TOL_TARGPCTDIFF_def)
  show ?thesis
    by (rule loop_stationary [OF sweep_infeasible f(1) _ assms f(2)]) simp
qed

lemma run_infeasible:
  assumes "1 \<le> c"
  shows "qrake pinv1 solver [[Fin 1]] [Fin 1] [[Fin 0]] [[Fin 1]] None (Some c) None None =
   Inr \<lparr>Q = [[Fin 1]], max_weight_absdiff = Fin 0, max_targ_abspctdiff = Fin 100, iter = c + 1,
        abspctdiff = Some [[Fin 100]], printed = [MaxIterExceeded]\<rparr>"
  unfolding qrake_def
  by (simp add: get_mask_def select_gfn_def shape_def ovf_Fin loop_infeasible [OF assms]
      abswtdiff_of_def fsum_def fsub_def select_def del: power_numeral)

lemma ovf_cases: "ovf a = PInf \<or> ovf a = NInf \<or> ovf a = Fin a \<and> \<bar>a\<bar> \<le> DBL_MAX"
  by (auto simp: ovf_def)

lemma ovf_bounded: "\<bar>a\<bar> \<le> DBL_MAX \<Longrightarrow> ovf a = Fin a"
  by (auto simp: ovf_def)

text \<open>
  The convex method on one record, whatever weight the solver returns for it: the
  adjustment is a finite number other than 0 (or the identity that replaces it), and the
  renormalization brings the share back to 1.
\<close>

lemma area_update_any_weight:
  "\<exists>v. area_update (\<lambda>Xs d tot. gec (\<lambda>X t b ob. Inr [x]) Xs d tot ENTROPY) [[Fin 1]] [[Fin 2]]
          [[True]] [[Fin 1]] 0 = Inr [[Fin v]] \<and> v \<noteq> 0 \<and> \<bar>v\<bar> \<le> DBL_MAX"
proof -
  let ?gfn = "\<lambda>Xs d tot. gec (\<lambda>X t b ob. Inr [x]) Xs d tot ENTROPY"
  define g where "g = fdiv (fmul x (Fin 1)) (Fin 1)"
  have one: "ovf 1 = Fin 1" "ovf (0 + 1) = Fin 1" by (simp_all add: ovf_Fin)
  have ag: "area_g ?gfn [[Fin 1]] [[Fin 2]] [[True]] [[Fin 1]] 0 = Inr (Some [g])"
    by (simp add: area_g_def select_def col_def gec_def fsum_def one g_def)
  have gc: "g = NaN \<or> g = PInf \<or> g = NInf \<or> (\<exists>a. g = Fin a \<and> \<bar>a\<bar> \<le> DBL_MAX)"
  proof (cases x)
    case (Fin a)
    from ovf_cases [of a] show ?thesis
    proof (elim disjE conjE)
      assume "ovf a = Fin a" and b: "\<bar>a\<bar> \<le> DBL_MAX"
      then have "g = Fin a" by (simp add: g_def Fin)
      with b show ?thesis by blast
    qed (simp_all add: g_def Fin)
  qed (simp_all add: g_def inf_signed_def)
  define g' where "g' = (if list_ex isnan [g] \<or> list_ex isinf [g] \<or> \<not> list_ex (\<lambda>x. x \<noteq> Fin 0) [g]
                     then replicate (length [g]) (Fin 1) else [g])"
  have "\<exists>v. g' = [Fin v] \<and> v \<noteq> 0 \<and> \<bar>v\<bar> \<le> DBL_MAX"
    using gc
  proof (elim disjE exE conjE)
    fix a assume a: "g = Fin a" "\<bar>a\<bar> \<le> DBL_MAX"
    show ?thesis
    proof (cases "a = 0")
      case True
      with a have "g' = [Fin 1]" by (simp add: g'_def)
      moreover have "\<bar>1::real\<bar> \<le> DBL_MAX" using DBL_MAX_gt_small by simp
      ultimately show ?thesis by (intro exI [of _ 1]) simp
    next
      case False
      with a have "g' = [Fin a]" by (simp add: g'_def)
      with False a(2) show ?thesis by blast
    qed
  next
    have b: "\<bar>1::real\<bar> \<le> DBL_MAX" using DBL_MAX_gt_small by simp
    { assume "g = NaN" then have "g' = [Fin 1]" by (simp add: g'_def)
      with b show ?thesis by (intro exI [of _ 1]) simp }
    { assume "g = PInf" then have "g' = [Fin 1]" by (simp add: g'_def)
      with b show ?thesis by (intro exI [of _ 1]) simp }
    { assume "g = NInf" then have "g' = [Fin 1]" by (simp add: g'_def)
      with b show ?thesis by (intro exI [of _ 1]) simp }
  qed
  then obtain v where v: "g' = [Fin v]" "v \<noteq> 0" "\<bar>v\<bar> \<le> DBL_MAX" by blast
  have "area_update ?gfn [[Fin 1]] [[Fin 2]] [[True]] [[Fin 1]] 0 =
          (case col_times (col [[Fin 1]] 0) g' of
             Inl e \<Rightarrow> Inl e
           | Inr c \<Rightarrow> Inr (set_col [[Fin 1]] 0 c))"
    unfolding area_update_def ag g'_def by (simp add: Let_def)
  also have "\<dots> = Inr [[Fin v]]"
    using v(3) by (simp add: v(1) col_times_def set_col_def col_def ovf_bounded)
  finally show ?thesis using v(2,3) by blast
qed

lemma sweep_any_weight:
  assumes "Q st = [[Fin 1]]"
  shows "\<exists>st'. sweep (\<lambda>Xs d tot. gec (\<lambda>X t b ob. Inr [x]) Xs d tot ENTROPY) [Fin 1] [[Fin 1]] [[Fin 1]]
                 [[Fin 2]] [[True]] st = Inr st' \<and>
           Q st' = [[Fin 1]] \<and> max_targ_abspctdiff st' = Fin 50 \<and> abspctdiff st' = Some [[Fin 50]]"
proof -
  let ?gfn = "\<lambda>Xs d tot. gec (\<lambda>X t b ob. Inr [x]) Xs d tot ENTROPY"
  from area_update_any_weight [of x] obtain v
    where u: "area_update ?gfn [[Fin 1]] [[Fin 2]] [[True]] [[Fin 1]] 0 = Inr [[Fin v]]"
      and v: "v \<noteq> 0" "\<bar>v\<bar> \<le> DBL_MAX"
    by blast
  have a: "areas_loop ?gfn [[Fin 1]] [[Fin 2]] [[True]] (Q st) [0..<fst (shape [[Fin 2 :: npfloat]])] =
             Inr [[Fin v]]"
    by (simp add: assms shape_def u)
  have one: "ovf 1 = Fin 1" by (simp add: ovf_Fin)
  have r: "renormalize [[Fin v]] = [[Fin 1]]"
    using v by (simp add: renormalize_def fsum_def ovf_bounded one)
  have p: "abspctdiff_of [[Fin 1]] [Fin 1] [[Fin 1]] [[Fin 2]] = [[Fin 50]]"
    by (simp add: abspctdiff_of_def shape_def col_def dot_def fsum_def fsub_def ovf_Fin)
  obtain z where z: "abswtdiff_of [[Fin v]] = [z]"
    by (simp add: abswtdiff_of_def)
  show ?thesis
    unfolding sweep_def a
    by (simp add: Let_def z r p select_def)
qed

lemma loop_to_cap:
  assumes sw: "\<And>st. Q st = Qm \<Longrightarrow>
      \<exists>st'. sweep gfn wh xmat xmat_wh targets msk st = Inr st' \<and> Q st' = Qm \<and>
            max_targ_abspctdiff st' = mt \<and> abspctdiff st' = Some apd"
    and mt: "fgt mt TOL_TARGPCTDIFF"
  shows "Q st = Qm \<Longrightarrow> 1 \<le> iter st \<Longrightarrow> iter st \<le> c \<Longrightarrow>
         fgt (max_targ_abspctdiff st) TOL_TARGPCTDIFF \<Longrightarrow>
         \<exists>st'. qrake_loop gfn wh xmat xmat_wh targets msk c st = Inr st' \<and> Q st' = Qm \<and>
               iter st' = c + 1 \<and> abspctdiff st' = Some apd"
proof (induction "nat (c - iter st)" arbitrary: st)
  case 0
  from sw [OF "0.prems"(1)] obtain st' where s: "sweep gfn wh xmat xmat_wh targets msk st = Inr st'"
    and p: "Q st' = Qm" "abspctdiff st' = Some apd"
    by blast
  from "0.hyps" "0.prems"(3) have i: "iter st = c" by simp
  have c: "continues c st"
    using "0.prems" by (simp add: continues_def)
  from sweep_iter [OF s] i have i': "iter st' = c + 1" by simp
  then have "\<not> continues c st'" by (simp add: continues_def)
  then have "qrake_loop gfn wh xmat xmat_wh targets msk c st' = Inr st'"
    by (simp add: qrake_loop_exit)
  with qrake_loop_step [OF c s] p i' show ?case by simp
next
  case (Suc k)
  from sw [OF Suc.prems(1)] obtain st' where s: "sweep gfn wh xmat xmat_wh targets msk st = Inr st'"
    and p: "Q st' = Qm" "max_targ_abspctdiff st' = mt"
    by blast
  have c: "continues c st"
    using Suc.prems by (simp add: continues_def)
  from sweep_iter [OF s] Suc.hyps(2) Suc.prems(2)
  have k: "k = nat (c - iter st')" "1 \<le> iter st'" "iter st' \<le> c" by simp_all
  from Suc.hyps(1) [OF k(1) p(1) k(2,3)] p(2) mt qrake_loop_step [OF c s] show ?case by simp
qed

lemma run_any_weight:
  assumes "1 \<le> c"
  shows "\<exists>st. qrake pinv1 (\<lambda>X t b ob. Inr [x]) [[Fin 1]] [Fin 1] [[Fin 1]] [[Fin 2]]
                (Some ''raking-ec'') (Some c) None None = Inr st \<and>
              Q st = [[Fin 1]] \<and> iter st = c + 1"
proof -
  let ?gfn = "\<lambda>Xs d tot. gec (\<lambda>X t b ob. Inr [x]) Xs d tot ENTROPY"
  let ?init = "\<lparr>Q = [[Fin 1]], max_weight_absdiff = Fin (10 ^ 9), max_targ_abspctdiff = Fin (10 ^ 9),
                iter = 1, abspctdiff = None, printed = []\<rparr>"
  have f: "fgt (Fin 50) TOL_TARGPCTDIFF" "fgt (max_targ_abspctdiff ?init) TOL_TARGPCTDIFF"
    by (simp_all add: fgt_def TOL_TARGPCTDIFF_def)
  have i: "Q ?init = [[Fin 1]]" "1 \<le> iter ?init" "iter ?init \<le> c"
    using assms by simp_all
  from loop_to_cap [of "[[Fin 1]]" ?gfn "[Fin 1]" "[[Fin 1]]" "[[Fin 1]]" "[[Fin 2]]" "[[True]]"
      "Fin 50" "[[Fin 50]]" ?init c, OF sweep_any_weight f(1) i f(2)]
  obtain st1 where l: "qrake_loop ?gfn [Fin 1] [[Fin 1]] [[Fin 1]] [[Fin 2]] [[True]] c ?init = Inr st1"
    and p: "Q st1 = [[Fin 1]]" "iter st1 = c + 1" "abspctdiff st1 = Some [[Fin 50]]"
    by auto
  show ?thesis
    unfolding qrake_def
    by (simp add: get_mask_def select_gfn_def shape_def ovf_Fin l p abswtdiff_of_def fsum_def
        fsub_def select_def del: power_numeral)
qed

text \<open>
  C8, as amended. The default cap is 200 whatever the method. A run that returns has made
  at least one and at most \<open>maxiter\<close> sweeps (\<open>iter - 1\<close> of them), it has printed the
  line of the cap exactly when \<open>iter\<close> has passed \<open>maxiter\<close>, and the \<open>Q\<close> it returns is
  the one that these \<open>iter - 1\<close> sweeps have left. Passing the cap raises nothing: once
  the loop has ended after a sweep, whether by the cap or not, the run returns the state
  of the loop. An exception of a run with \<open>maxiter \<ge> 1\<close> comes from \<^verbatim>\<open>get_mask\<close> or out
  of one of the first \<open>maxiter\<close> sweeps of the run.
\<close>

theorem qrake_iteration_cap:
  "qrake pinv solver Q0 wh xmat targets method None drops obj =
     qrake pinv solver Q0 wh xmat targets method (Some 200) drops obj \<and>
   (qrake pinv solver Q0 wh xmat targets method maxiter_arg drops obj = Inr st \<longrightarrow>
      1 \<le> iter st - 1 \<and> iter st - 1 \<le> (case maxiter_arg of None \<Rightarrow> 200 | Some n \<Rightarrow> n) \<and>
      (MaxIterExceeded \<in> set (printed st)) = ((case maxiter_arg of None \<Rightarrow> 200 | Some n \<Rightarrow> n) < iter st) \<and>
      (\<exists>msk st1. get_mask targets drops = Inr msk \<and>
         sweeps (select_gfn pinv solver (case method of None \<Rightarrow> ''raking'' | Some s \<Rightarrow> s) (case obj of None \<Rightarrow> ENTROPY | Some ob \<Rightarrow> ob)) wh xmat (map2 (\<lambda>r w. map (\<lambda>x. fmul x w) r) xmat wh) targets msk (nat (iter st - 1))
           \<lparr>Q = Q0, max_weight_absdiff = Fin (10 ^ 9), max_targ_abspctdiff = Fin (10 ^ 9), iter = 1, abspctdiff = None, printed = []\<rparr> = Inr st1 \<and>
         Q st = Q st1)) \<and>
   (get_mask targets drops = Inr msk \<and> 1 \<le> (case maxiter_arg of None \<Rightarrow> 200 | Some n \<Rightarrow> n) \<and>
    qrake_loop (select_gfn pinv solver (case method of None \<Rightarrow> ''raking'' | Some s \<Rightarrow> s) (case obj of None \<Rightarrow> ENTROPY | Some ob \<Rightarrow> ob)) wh xmat (map2 (\<lambda>r w. map (\<lambda>x. fmul x w) r) xmat wh) targets msk (case maxiter_arg of None \<Rightarrow> 200 | Some n \<Rightarrow> n)
      \<lparr>Q = Q0, max_weight_absdiff = Fin (10 ^ 9), max_targ_abspctdiff = Fin (10 ^ 9), iter = 1, abspctdiff = None, printed = []\<rparr> = Inr st1 \<longrightarrow>
      (\<exists>mw. qrake pinv solver Q0 wh xmat targets method maxiter_arg drops obj =
         Inr (st1\<lparr>max_weight_absdiff := mw,
                  printed := printed st1 @ (if (case maxiter_arg of None \<Rightarrow> 200 | Some n \<Rightarrow> n) < iter st1 then [MaxIterExceeded] else [])\<rparr>))) \<and>
   (qrake pinv solver Q0 wh xmat targets method maxiter_arg drops obj = Inl e \<longrightarrow>
      get_mask targets drops = Inl e \<or> (case maxiter_arg of None \<Rightarrow> 200 | Some n \<Rightarrow> n) < 1 \<or>
      (\<exists>msk k st0. get_mask targets drops = Inr msk \<and> int k < (case maxiter_arg of None \<Rightarrow> 200 | Some n \<Rightarrow> n) \<and>
         sweeps (select_gfn pinv solver (case method of None \<Rightarrow> ''raking'' | Some s \<Rightarrow> s) (case obj of None \<Rightarrow> ENTROPY | Some ob \<Rightarrow> ob)) wh xmat (map2 (\<lambda>r w. map (\<lambda>x. fmul x w) r) xmat wh) targets msk k
           \<lparr>Q = Q0, max_weight_absdiff = Fin (10 ^ 9), max_targ_abspctdiff = Fin (10 ^ 9), iter = 1, abspctdiff = None, printed = []\<rparr> = Inr st0 \<and>
         sweep (select_gfn pinv solver (case method of None \<Rightarrow> ''raking'' | Some s \<Rightarrow> s) (case obj of None \<Rightarrow> ENTROPY | Some ob \<Rightarrow> ob)) wh xmat (map2 (\<lambda>r w. map (\<lambda>x. fmul x w) r) xmat wh) targets msk st0 = Inl e))"
proof -
  let ?cap = "case maxiter_arg of None \<Rightarrow> 200 | Some n \<Rightarrow> n"
  let ?init = "\<lparr>Q = Q0, max_weight_absdiff = Fin (10 ^ 9), max_targ_abspctdiff = Fin (10 ^ 9),
                      iter = 1, abspctdiff = None, printed = []\<rparr>"
  let ?xw = "map2 (\<lambda>r w. map (\<lambda>x. fmul x w) r) xmat wh"
  let ?run = "qrake pinv solver Q0 wh xmat targets method maxiter_arg drops obj"
  define gfn where "gfn = select_gfn pinv solver (case method of None \<Rightarrow> ''raking'' | Some s \<Rightarrow> s)
             (case obj of None \<Rightarrow> ENTROPY | Some ob \<Rightarrow> ob)"
  have run: "?run =
      (case get_mask targets drops of
           Inl e \<Rightarrow> Inl e
         | Inr msk \<Rightarrow>
             (case qrake_loop gfn wh xmat ?xw targets msk ?cap ?init of
                Inl e \<Rightarrow> Inl e
              | Inr st \<Rightarrow>
                  (case np_max (abswtdiff_of (Q st)) of
                     Inl e \<Rightarrow> Inl e
                   | Inr mw \<Rightarrow>
                       (case abspctdiff st of
                             None \<Rightarrow> Inl UnboundLocalError
                           | Some apd \<Rightarrow>
                               (case np_max (concat apd) of
                                  Inl e \<Rightarrow> Inl e
                                | Inr p100a \<Rightarrow>
                                    (case np_max (select (concat apd) (concat msk)) of
                                       Inl e \<Rightarrow> Inl e
                                     | Inr p100m \<Rightarrow>
                                         Inr (st\<lparr>max_weight_absdiff := mw,
                                           printed := printed st @
                                             (if ?cap < iter st then [MaxIterExceeded] else [])\<rparr>)))))))"
    unfolding qrake_def Let_def gfn_def by (simp del: power_numeral)
  have swept: "\<exists>mw. ?run = Inr (st1\<lparr>max_weight_absdiff := mw,
                  printed := printed st1 @ (if ?cap < iter st1 then [MaxIterExceeded] else [])\<rparr>)"
    if gm: "get_mask targets drops = Inr msk"
      and l: "qrake_loop gfn wh xmat ?xw targets msk ?cap ?init = Inr st1"
      and s: "sweep gfn wh xmat ?xw targets msk st0 = Inr st1" for msk st0 st1
    using sweep_post [OF s] by (auto simp: run gm l simp del: power_numeral)
  have entered: "\<exists>st0. sweep gfn wh xmat ?xw targets msk st0 = Inr st1"
    if l: "qrake_loop gfn wh xmat ?xw targets msk ?cap ?init = Inr st1" and c: "1 \<le> ?cap"
    for msk st1
  proof -
    from c have "continues ?cap ?init"
      by (simp add: continues_def fgt_def TOL_WTDIFF_def)
    with qrake_loop_result [OF l] show ?thesis by blast
  qed
  have dflt: "qrake pinv solver Q0 wh xmat targets method None drops obj =
     qrake pinv solver Q0 wh xmat targets method (Some 200) drops obj"
    by (simp add: qrake_def)
  have ret: "1 \<le> iter st - 1 \<and> iter st - 1 \<le> ?cap \<and>
      (MaxIterExceeded \<in> set (printed st)) = (?cap < iter st) \<and>
      (\<exists>msk st1. get_mask targets drops = Inr msk \<and>
         sweeps gfn wh xmat ?xw targets msk (nat (iter st - 1)) ?init = Inr st1 \<and> Q st = Q st1)"
    if r: "?run = Inr st"
  proof -
    from r obtain msk st1 mw where
      gm: "get_mask targets drops = Inr msk" and
      l: "qrake_loop gfn wh xmat ?xw targets msk ?cap ?init = Inr st1" and
      a: "abspctdiff st1 \<noteq> None" and
      st: "st = st1\<lparr>max_weight_absdiff := mw,
                   printed := printed st1 @ (if ?cap < iter st1 then [MaxIterExceeded] else [])\<rparr>"
      unfolding run by (auto split: sum.splits option.splits)
    from qrake_loop_iter [OF l] have i: "iter st1 \<le> max 1 (?cap + 1)"
      by simp
    from qrake_loop_result [OF l] a obtain st0 where
      s0: "1 \<le> iter st0" "sweep gfn wh xmat ?xw targets msk st0 = Inr st1" and
      p: "MaxIterExceeded \<notin> set (printed st1)"
      by auto
    from s0 have i2: "2 \<le> iter st1"
      using sweep_iter [OF s0(2)] by simp
    from qrake_loop_sweeps [OF l] obtain n
      where n: "sweeps gfn wh xmat ?xw targets msk n ?init = Inr st1" by blast
    from sweeps_iter [OF n] have "n = nat (iter st - 1)"
      by (simp add: st)
    with n gm have "\<exists>msk st1. get_mask targets drops = Inr msk \<and>
         sweeps gfn wh xmat ?xw targets msk (nat (iter st - 1)) ?init = Inr st1 \<and> Q st = Q st1"
      by (auto simp: st)
    moreover from i i2 p have "1 \<le> iter st - 1 \<and> iter st - 1 \<le> ?cap \<and>
      (MaxIterExceeded \<in> set (printed st)) = (?cap < iter st)"
      by (auto simp: st)
    ultimately show ?thesis by blast
  qed
  have pass: "\<exists>mw. ?run = Inr (st1\<lparr>max_weight_absdiff := mw,
                  printed := printed st1 @ (if ?cap < iter st1 then [MaxIterExceeded] else [])\<rparr>)"
    if h: "get_mask targets drops = Inr msk \<and> 1 \<le> ?cap \<and>
           qrake_loop gfn wh xmat ?xw targets msk ?cap ?init = Inr st1"
  proof -
    from h have gm: "get_mask targets drops = Inr msk" and c: "1 \<le> ?cap"
      and l: "qrake_loop gfn wh xmat ?xw targets msk ?cap ?init = Inr st1"
      by blast+
    from entered [OF l c] obtain st0 where "sweep gfn wh xmat ?xw targets msk st0 = Inr st1" ..
    from swept [OF gm l this] show ?thesis .
  qed
  have err: "get_mask targets drops = Inl e \<or> ?cap < 1 \<or>
      (\<exists>msk k st0. get_mask targets drops = Inr msk \<and> int k < ?cap \<and>
         sweeps gfn wh xmat ?xw targets msk k ?init = Inr st0 \<and>
         sweep gfn wh xmat ?xw targets msk st0 = Inl e)"
    if r: "?run = Inl e"
  proof (cases "get_mask targets drops")
    case (Inl e')
    with r have "e' = e" unfolding run by simp
    with Inl show ?thesis by simp
  next
    case gm: (Inr msk)
    show ?thesis
    proof (cases "qrake_loop gfn wh xmat ?xw targets msk ?cap ?init")
      case (Inl e')
      with r gm have e': "e' = e" unfolding run by simp
      from qrake_loop_error_sweeps [OF Inl] obtain k st0
        where k: "sweeps gfn wh xmat ?xw targets msk k ?init = Inr st0"
          and c: "continues ?cap st0" and s: "sweep gfn wh xmat ?xw targets msk st0 = Inl e'"
        by blast
      from sweeps_iter [OF k] c have "int k < ?cap"
        by (simp add: continues_def)
      with gm k s e' show ?thesis by blast
    next
      case l: (Inr st1)
      show ?thesis
      proof (cases "1 \<le> ?cap")
        case True
        from entered [OF l True] obtain st0 where "sweep gfn wh xmat ?xw targets msk st0 = Inr st1" ..
        from swept [OF gm l this] r show ?thesis by auto
      next
        case False
        then show ?thesis by simp
      qed
    qed
  qed
  from dflt ret pass err show ?thesis unfolding gfn_def by blast
qed

text \<open>
  The claim's cap of 50 for the convex method fails on the run of one record with the
  target 2, whatever weight \<open>x\<close> the solver returns for the record: with no \<^verbatim>\<open>maxiter\<close>
  given the run makes 200 sweeps and \<open>iter\<close> ends at 201, while the call with
  \<^verbatim>\<open>maxiter=50\<close> makes 50.
\<close>

theorem qrake_default_cap_counterexample:
  "\<forall>x. (\<exists>st. qrake pinv1 (\<lambda>X t b ob. Inr [x]) [[Fin 1]] [Fin 1] [[Fin 1]] [[Fin 2]]
               (Some ''raking-ec'') None None None = Inr st \<and> iter st = 201) \<and>
       (\<exists>st. qrake pinv1 (\<lambda>X t b ob. Inr [x]) [[Fin 1]] [Fin 1] [[Fin 1]] [[Fin 2]]
               (Some ''raking-ec'') (Some 50) None None = Inr st \<and> iter st = 51)"
proof
  fix x :: npfloat
  have "qrake pinv1 (\<lambda>X t b ob. Inr [x]) [[Fin 1]] [Fin 1] [[Fin 1]] [[Fin 2]] (Some ''raking-ec'') None
     None None =
     qrake pinv1 (\<lambda>X t b ob. Inr [x]) [[Fin 1]] [Fin 1] [[Fin 1]] [[Fin 2]] (Some ''raking-ec'')
     (Some 200) None None"
    by (simp add: qrake_def)
  with run_any_weight [of 200 x] run_any_weight [of 50 x]
  show "(\<exists>st. qrake pinv1 (\<lambda>X t b ob. Inr [x]) [[Fin 1]] [Fin 1] [[Fin 1]] [[Fin 2]]
               (Some ''raking-ec'') None None None = Inr st \<and> iter st = 201) \<and>
       (\<exists>st. qrake pinv1 (\<lambda>X t b ob. Inr [x]) [[Fin 1]] [Fin 1] [[Fin 1]] [[Fin 2]]
               (Some ''raking-ec'') (Some 50) None None = Inr st \<and> iter st = 51)"
    by auto
qed

theorem qrake_iteration_cap_witness:
  "qrake pinv1 (\<lambda>X t w ob. Inr w) [[Fin 1]] [Fin 1] [[Fin 0]] [[Fin 1]] None None None None =
     Inr \<lparr>Q = [[Fin 1]], max_weight_absdiff = Fin 0, max_targ_abspctdiff = Fin 100, iter = 201, abspctdiff = Some [[Fin 100]], printed = [MaxIterExceeded]\<rparr> \<and>
   (1::int) \<le> 201 - 1 \<and> (201::int) - 1 \<le> 200 \<and> (MaxIterExceeded \<in> set [MaxIterExceeded]) = ((200::int) < 201) \<and>
   (\<exists>msk st1. get_mask [[Fin 1]] None = Inr msk \<and> sweeps (select_gfn pinv1 (\<lambda>X t w ob. Inr w) ''raking'' ENTROPY) [Fin 1] [[Fin 0]] (map2 (\<lambda>r w. map (\<lambda>x. fmul x w) r) [[Fin 0]] [Fin 1]) [[Fin 1]] msk 200 \<lparr>Q = [[Fin 1]], max_weight_absdiff = Fin (10 ^ 9), max_targ_abspctdiff = Fin (10 ^ 9), iter = 1, abspctdiff = None, printed = []\<rparr> = Inr st1 \<and> [[Fin 1]] = Q st1) \<and>
   get_mask [[Fin 1]] None = Inr [[True]] \<and>
   (1::int) \<le> 200 \<and>
   qrake_loop (select_gfn pinv1 (\<lambda>X t w ob. Inr w) ''raking'' ENTROPY) [Fin 1] [[Fin 0]] (map2 (\<lambda>r w. map (\<lambda>x. fmul x w) r) [[Fin 0]] [Fin 1]) [[Fin 1]] [[True]] 200 \<lparr>Q = [[Fin 1]], max_weight_absdiff = Fin (10 ^ 9), max_targ_abspctdiff = Fin (10 ^ 9), iter = 1, abspctdiff = None, printed = []\<rparr> =
     Inr \<lparr>Q = [[Fin 1]], max_weight_absdiff = Fin 0, max_targ_abspctdiff = Fin 100, iter = 201, abspctdiff = Some [[Fin 100]], printed = []\<rparr> \<and>
   (\<exists>mw. qrake pinv1 (\<lambda>X t w ob. Inr w) [[Fin 1]] [Fin 1] [[Fin 0]] [[Fin 1]] None None None None =
     Inr \<lparr>Q = [[Fin 1]], max_weight_absdiff = mw, max_targ_abspctdiff = Fin 100, iter = 201, abspctdiff = Some [[Fin 100]], printed = [MaxIterExceeded]\<rparr>) \<and>
   qrake pinv1 (\<lambda>X t w ob. Inr w) [[Fin 1]] [Fin 1] [[Fin 1]] [[Fin 10000000000]] None None None None = Inl TypeError \<and>
   (\<exists>msk k st0. get_mask [[Fin 10000000000]] None = Inr msk \<and> int k < 200 \<and> sweeps (select_gfn pinv1 (\<lambda>X t w ob. Inr w) ''raking'' ENTROPY) [Fin 1] [[Fin 1]] (map2 (\<lambda>r w. map (\<lambda>x. fmul x w) r) [[Fin 1]] [Fin 1]) [[Fin 10000000000]] msk k \<lparr>Q = [[Fin 1]], max_weight_absdiff = Fin (10 ^ 9), max_targ_abspctdiff = Fin (10 ^ 9), iter = 1, abspctdiff = None, printed = []\<rparr> = Inr st0 \<and> sweep (select_gfn pinv1 (\<lambda>X t w ob. Inr w) ''raking'' ENTROPY) [Fin 1] [[Fin 1]] (map2 (\<lambda>r w. map (\<lambda>x. fmul x w) r) [[Fin 1]] [Fin 1]) [[Fin 10000000000]] msk st0 = Inl TypeError)"
proof -
  let ?S = "\<lambda>(X::mat) (t::vec) (w::vec) (ob::objective). (Inr w :: error + vec)"
  let ?F = "\<lparr>Q = [[Fin 1]], max_weight_absdiff = Fin 0, max_targ_abspctdiff = Fin 100, iter = 201, abspctdiff = Some [[Fin 100]], printed = [MaxIterExceeded]\<rparr>"
  let ?L = "\<lparr>Q = [[Fin 1]], max_weight_absdiff = Fin 0, max_targ_abspctdiff = Fin 100, iter = 201, abspctdiff = Some [[Fin 100]], printed = []\<rparr>"
  have dflt: "qrake pinv1 ?S [[Fin 1]] [Fin 1] [[Fin 0]] [[Fin 1]] None None None None =
      qrake pinv1 ?S [[Fin 1]] [Fin 1] [[Fin 0]] [[Fin 1]] None (Some 200) None None"
    by (simp add: qrake_def)
  have b1: "qrake pinv1 (\<lambda>X t w ob. Inr w) [[Fin 1]] [Fin 1] [[Fin 0]] [[Fin 1]] None None None None = Inr ?F"
    unfolding dflt using run_infeasible [of 200 ?S] by simp
  note T = qrake_iteration_cap [of pinv1 ?S "[[Fin 1]]" "[Fin 1]" "[[Fin 0]]" "[[Fin 1]]" None None
      None None ?F "[[True]]" ?L]
  have b: "(1::int) \<le> 201 - 1 \<and> (201::int) - 1 \<le> 200 \<and> (MaxIterExceeded \<in> set [MaxIterExceeded]) = ((200::int) < 201) \<and>
      (\<exists>msk st1. get_mask [[Fin 1]] None = Inr msk \<and> sweeps (select_gfn pinv1 (\<lambda>X t w ob. Inr w) ''raking'' ENTROPY) [Fin 1] [[Fin 0]] (map2 (\<lambda>r w. map (\<lambda>x. fmul x w) r) [[Fin 0]] [Fin 1]) [[Fin 1]] msk 200 \<lparr>Q = [[Fin 1]], max_weight_absdiff = Fin (10 ^ 9), max_targ_abspctdiff = Fin (10 ^ 9), iter = 1, abspctdiff = None, printed = []\<rparr> = Inr st1 \<and> [[Fin 1]] = Q st1)"
    using T [THEN conjunct2, THEN conjunct1, THEN mp, OF b1] by simp
  have c1: "get_mask [[Fin 1]] None = Inr [[True]]"
    by (simp add: get_mask_def shape_def)
  have c3: "qrake_loop (select_gfn pinv1 (\<lambda>X t w ob. Inr w) ''raking'' ENTROPY) [Fin 1] [[Fin 0]] (map2 (\<lambda>r w. map (\<lambda>x. fmul x w) r) [[Fin 0]] [Fin 1]) [[Fin 1]] [[True]] 200 \<lparr>Q = [[Fin 1]], max_weight_absdiff = Fin (10 ^ 9), max_targ_abspctdiff = Fin (10 ^ 9), iter = 1, abspctdiff = None, printed = []\<rparr> =
     Inr \<lparr>Q = [[Fin 1]], max_weight_absdiff = Fin 0, max_targ_abspctdiff = Fin 100, iter = 201, abspctdiff = Some [[Fin 100]], printed = []\<rparr>"
    using loop_infeasible [of 200] by (simp add: select_gfn_def ovf_Fin)
  have c: "(\<exists>mw. qrake pinv1 (\<lambda>X t w ob. Inr w) [[Fin 1]] [Fin 1] [[Fin 0]] [[Fin 1]] None None None None =
     Inr \<lparr>Q = [[Fin 1]], max_weight_absdiff = mw, max_targ_abspctdiff = Fin 100, iter = 201, abspctdiff = Some [[Fin 100]], printed = [MaxIterExceeded]\<rparr>)"
    using T [THEN conjunct2, THEN conjunct2, THEN conjunct1, THEN mp] c1 c3 by simp
  note U = qrake_iteration_cap [of pinv1 ?S "[[Fin 1]]" "[Fin 1]" "[[Fin 1]]" "[[Fin 10000000000]]"
      None None None None _ _ _ TypeError]
  have d1: "qrake pinv1 (\<lambda>X t w ob. Inr w) [[Fin 1]] [Fin 1] [[Fin 1]] [[Fin 10000000000]] None None None None = Inl TypeError"
    by (rule run_overflowing_target)
  have "get_mask [[Fin 10000000000]] None \<noteq> Inl TypeError"
    by (simp add: get_mask_def)
  with U [THEN conjunct2, THEN conjunct2, THEN conjunct2, THEN mp, OF d1]
  have d: "(\<exists>msk k st0. get_mask [[Fin 10000000000]] None = Inr msk \<and> int k < 200 \<and> sweeps (select_gfn pinv1 (\<lambda>X t w ob. Inr w) ''raking'' ENTROPY) [Fin 1] [[Fin 1]] (map2 (\<lambda>r w. map (\<lambda>x. fmul x w) r) [[Fin 1]] [Fin 1]) [[Fin 10000000000]] msk k \<lparr>Q = [[Fin 1]], max_weight_absdiff = Fin (10 ^ 9), max_targ_abspctdiff = Fin (10 ^ 9), iter = 1, abspctdiff = None, printed = []\<rparr> = Inr st0 \<and> sweep (select_gfn pinv1 (\<lambda>X t w ob. Inr w) ''raking'' ENTROPY) [Fin 1] [[Fin 1]] (map2 (\<lambda>r w. map (\<lambda>x. fmul x w) r) [[Fin 1]] [Fin 1]) [[Fin 10000000000]] msk st0 = Inl TypeError)"
    by simp
  from b1 b c1 c3 c d1 d show ?thesis by simp
qed

section \<open>Sums, maxima and the masked cells\<close>

lemma DBL_MAX_ge_1: "1 \<le> DBL_MAX"
  using DBL_MAX_gt_small by linarith

lemma foldl_fadd_PInf: "foldl fadd PInf (map Fin as) = PInf"
  by (induction as) auto

lemma sum_list_nonneg': "list_all (\<lambda>a. 0 \<le> a) as \<Longrightarrow> 0 \<le> sum_list (as :: real list)"
  by (induction as) auto

lemma foldl_fadd_nonneg:
  "0 \<le> acc \<Longrightarrow> acc \<le> DBL_MAX \<Longrightarrow> list_all (\<lambda>a. 0 \<le> a) as \<Longrightarrow>
     foldl fadd (Fin acc) (map Fin as) =
       (if acc + sum_list as \<le> DBL_MAX then Fin (acc + sum_list as) else PInf)"
proof (induction as arbitrary: acc)
  case Nil
  then show ?case by simp
next
  case (Cons a as)
  from Cons.prems have a: "0 \<le> a" and as: "list_all (\<lambda>a. 0 \<le> a) as" by simp_all
  have s: "0 \<le> sum_list as" using as by (rule sum_list_nonneg')
  show ?case
  proof (cases "acc + a \<le> DBL_MAX")
    case True
    with Cons.prems a have "fadd (Fin acc) (Fin a) = Fin (acc + a)"
      using DBL_MAX_ge_1 by (simp add: ovf_def)
    moreover have "0 \<le> acc + a" using Cons.prems a by simp
    ultimately show ?thesis
      using Cons.IH [OF _ True as] by (simp add: add.assoc)
  next
    case False
    then have "fadd (Fin acc) (Fin a) = PInf"
      by (simp add: ovf_def)
    moreover from False s have "\<not> acc + (a + sum_list as) \<le> DBL_MAX" by linarith
    ultimately show ?thesis
      by (simp add: foldl_fadd_PInf)
  qed
qed

lemma nonneg_finite_row:
  "list_all nonneg_finite r \<Longrightarrow> \<exists>as. r = map Fin as \<and> list_all (\<lambda>a. 0 \<le> a) as"
proof (induction r)
  case Nil
  then show ?case by simp
next
  case (Cons x r)
  then obtain as where as: "r = map Fin as" "list_all (\<lambda>a. 0 \<le> a) as" by auto
  from Cons.prems obtain a where "x = Fin a" "0 \<le> a"
    by (auto simp: nonneg_finite_def split: npfloat.splits)
  with as have "x # r = map Fin (a # as) \<and> list_all (\<lambda>a. 0 \<le> a) (a # as)" by simp
  then show ?case by (rule exI [of _ "a # as"])
qed

lemma member_le_sum_list:
  "list_all (\<lambda>a. 0 \<le> a) as \<Longrightarrow> a \<in> set as \<Longrightarrow> a \<le> sum_list (as :: real list)"
proof (induction as)
  case Nil
  then show ?case by simp
next
  case (Cons b as)
  then have "0 \<le> sum_list as" by (simp add: sum_list_nonneg')
  with Cons show ?case by auto
qed

text \<open>A row of finite, non-negative shares with a positive sum is renormalized to sum 1.\<close>

lemma renormalize_row:
  assumes r: "list_all nonneg_finite r" and s: "fsum r = Fin s" "0 < s"
  shows "fsum (map (\<lambda>x. fdiv x (fsum r)) r) = Fin 1"
proof -
  from r obtain as where as: "r = map Fin as" "list_all (\<lambda>a. 0 \<le> a) as"
    using nonneg_finite_row by blast
  have z: "(0::real) \<le> DBL_MAX" using DBL_MAX_ge_1 by linarith
  from s(1) have sum: "s = sum_list as"
    using foldl_fadd_nonneg [OF _ z as(2)] by (simp add: fsum_def as(1) split: if_splits)
  have d: "fdiv (Fin a) (Fin s) = Fin (a / s)" if "a \<in> set as" for a
  proof -
    from that as(2) have "0 \<le> a" by (simp add: list_all_iff)
    moreover from that have "a \<le> s" using member_le_sum_list [OF as(2)] sum by simp
    ultimately have b: "0 \<le> a / s" "a / s \<le> 1" using s(2) by simp_all
    have "\<not> DBL_MAX < a / s" "\<not> a / s < - DBL_MAX"
      using b DBL_MAX_ge_1 by linarith+
    then show ?thesis using s(2) by (simp add: ovf_def)
  qed
  have fs: "fsum (map Fin as) = Fin s"
    using s(1) as(1) by simp
  have "map (\<lambda>x. fdiv x (fsum r)) r = map Fin (map (\<lambda>a. a / s) as)"
    unfolding as(1) fs using d by (simp del: fdiv.simps)
  moreover have "list_all (\<lambda>a. 0 \<le> a) (map (\<lambda>a. a / s) as)"
    using as(2) s(2) by (simp add: list_all_iff)
  moreover have "sum_list (map (\<lambda>a. a / s) as) = 1"
  proof -
    have "sum_list (map (\<lambda>a. a / s) as) = sum_list (map (\<lambda>a. a * (1 / s)) as)" by simp
    also have "\<dots> = sum_list as * (1 / s)"
      using sum_list_mult_const [of "\<lambda>a. a" "1 / s" as] by simp
    finally show ?thesis using sum s(2) by simp
  qed
  ultimately show ?thesis
    using foldl_fadd_nonneg [OF _ z, of "map (\<lambda>a. a / s) as"] DBL_MAX_ge_1
    by (simp add: fsum_def)
qed

lemma fle_refl: "\<not> isnan x \<Longrightarrow> fle x x"
  by (cases x) simp_all

lemma fle_trans: "fle x y \<Longrightarrow> fle y z \<Longrightarrow> fle x z"
  by (cases x; cases y; cases z) simp_all

lemma fmax_nan: "isnan (fmax x y) = (isnan x \<or> isnan y)"
  by (cases x; cases y) (simp_all add: fmax_def)

lemma fmax_ge: "\<not> isnan x \<Longrightarrow> \<not> isnan y \<Longrightarrow> fle x (fmax x y) \<and> fle y (fmax x y)"
  by (cases x; cases y) (simp_all add: fmax_def)

lemma fmax_cases: "fmax x y = x \<or> fmax x y = y"
  by (simp add: fmax_def)

lemma foldl_fmax_nan: "isnan (foldl fmax x xs) = (isnan x \<or> list_ex isnan xs)"
  by (induction xs arbitrary: x) (auto simp: fmax_nan)

lemma foldl_fmax_mem: "foldl fmax x xs \<in> set (x # xs)"
proof (induction xs arbitrary: x)
  case Nil
  then show ?case by simp
next
  case (Cons a xs)
  from Cons.IH [of "fmax x a"] fmax_cases [of x a] show ?case by auto
qed

lemma foldl_fmax_ub:
  "\<not> isnan (foldl fmax x xs) \<Longrightarrow> list_all (\<lambda>y. fle y (foldl fmax x xs)) (x # xs)"
proof (induction xs arbitrary: x)
  case Nil
  then show ?case by (simp add: fle_refl)
next
  case (Cons a xs)
  from Cons.prems have n: "\<not> isnan (foldl fmax (fmax x a) xs)" by simp
  then have "\<not> isnan (fmax x a)" by (simp add: foldl_fmax_nan)
  then have xa: "\<not> isnan x" "\<not> isnan a" by (simp_all add: fmax_nan)
  from Cons.IH [OF n] have ih: "fle (fmax x a) (foldl fmax (fmax x a) xs)"
    "list_all (\<lambda>y. fle y (foldl fmax (fmax x a) xs)) xs" by simp_all
  from fmax_ge [OF xa] ih(1) have "fle x (foldl fmax (fmax x a) xs)" "fle a (foldl fmax (fmax x a) xs)"
    by (blast intro: fle_trans)+
  with ih(2) show ?case by simp
qed

lemma np_max_is_max: "np_max xs = Inr v \<Longrightarrow> \<not> isnan v \<Longrightarrow> is_max v xs"
proof (cases xs)
  case Nil
  assume "np_max xs = Inr v"
  with Nil show ?thesis by simp
next
  case (Cons x ys)
  assume "np_max xs = Inr v" "\<not> isnan v"
  with Cons have v: "v = foldl fmax x ys" "\<not> isnan (foldl fmax x ys)" by auto
  show ?thesis
    unfolding is_max_def Cons v(1) using foldl_fmax_mem [of x ys] foldl_fmax_ub [OF v(2)] by simp
qed

lemma not_fgt_fle: "\<not> isnan x \<Longrightarrow> (\<not> fgt x (Fin t)) = fle x (Fin t)"
  by (cases x) (auto simp: fgt_def)

lemma set_select:
  "length xs = length bs \<Longrightarrow> set (select xs bs) = {xs ! c | c. c < length xs \<and> bs ! c}"
  by (force simp: select_def set_zip image_iff)

lemma select_append:
  "length xs = length bs \<Longrightarrow> select (xs @ ys) (bs @ cs) = select xs bs @ select ys cs"
  by (simp add: select_def)

lemma set_select_concat:
  "list_all2 (\<lambda>r b. length r = length b) a m \<Longrightarrow>
     set (select (concat a) (concat m)) =
       {a ! j ! c | j c. j < length a \<and> c < length (a ! j) \<and> m ! j ! c}"
proof (induction rule: list_all2_induct)
  case Nil
  then show ?case by (simp add: select_def)
next
  case (Cons r a b m)
  have "{(r # a) ! j ! c | j c. j < length (r # a) \<and> c < length ((r # a) ! j) \<and> (b # m) ! j ! c} =
        {r ! c | c. c < length r \<and> b ! c} \<union>
        {a ! j ! c | j c. j < length a \<and> c < length (a ! j) \<and> m ! j ! c}" (is "?L = ?A \<union> ?B")
  proof (intro equalityI subsetI)
    fix x assume "x \<in> ?L"
    then obtain j c where x: "x = (r # a) ! j ! c" "j < Suc (length a)"
      "c < length ((r # a) ! j)" "(b # m) ! j ! c" by auto
    show "x \<in> ?A \<union> ?B"
    proof (cases j)
      case 0
      with x show ?thesis by auto
    next
      case (Suc j')
      with x show ?thesis by auto
    qed
  next
    fix x assume "x \<in> ?A \<union> ?B"
    then show "x \<in> ?L"
    proof
      assume "x \<in> ?A"
      then obtain c where "x = r ! c" "c < length r" "b ! c" by auto
      then have "x = (r # a) ! 0 ! c \<and> 0 < length (r # a) \<and> c < length ((r # a) ! 0) \<and> (b # m) ! 0 ! c"
        by simp
      then show ?thesis by blast
    next
      assume "x \<in> ?B"
      then obtain j c where "x = a ! j ! c" "j < length a" "c < length (a ! j)" "m ! j ! c" by auto
      then have "x = (r # a) ! Suc j ! c \<and> Suc j < length (r # a) \<and>
                 c < length ((r # a) ! Suc j) \<and> (b # m) ! Suc j ! c"
        by simp
      then show ?thesis by blast
    qed
  qed
  with Cons show ?case
    by (simp add: select_append set_select)
qed

lemma abspctdiff_of_shape:
  "length (abspctdiff_of A wh xmat targets) = fst (shape targets)"
  "j < fst (shape targets) \<Longrightarrow> length (abspctdiff_of A wh xmat targets ! j) = snd (shape targets)"
  "j < fst (shape targets) \<Longrightarrow> c < snd (shape targets) \<Longrightarrow>
     abspctdiff_of A wh xmat targets ! j ! c = pct_cell A wh xmat targets j c"
  by (simp_all add: abspctdiff_of_def pct_cell_def Let_def)

section \<open>The row sums after a sweep\<close>

lemma sweep_renormalizes:
  assumes "sweep gfn wh xmat xmat_wh targets msk st = Inr st'"
  shows "\<exists>Q1. areas_loop gfn xmat_wh targets msk (Q st) [0..<fst (shape targets)] = Inr Q1 \<and>
           Q st' = renormalize Q1"
  using assms by (auto simp: sweep_def Let_def split: sum.splits)

lemma qrake_returns_swept:
  assumes "qrake pinv solver Q0 wh xmat targets method maxiter_arg drops obj = Inr stf"
  shows "\<exists>gfn xw msk st0 st1. sweep gfn wh xmat xw targets msk st0 = Inr st1 \<and> Q stf = Q st1"
proof -
  let ?cap = "case maxiter_arg of None \<Rightarrow> 200 | Some n \<Rightarrow> n"
  let ?init = "\<lparr>Q = Q0, max_weight_absdiff = Fin (10 ^ 9), max_targ_abspctdiff = Fin (10 ^ 9),
                      iter = 1, abspctdiff = None, printed = []\<rparr>"
  from assms obtain gfn msk xw st1 where
    l: "qrake_loop gfn wh xmat xw targets msk ?cap ?init = Inr st1" and
    a: "abspctdiff st1 \<noteq> None" and q: "Q stf = Q st1"
    unfolding qrake_def Let_def
    by (auto split: sum.splits option.splits simp del: power_numeral)
  from qrake_loop_result [OF l] a obtain st0 where
    "sweep gfn wh xmat xw targets msk st0 = Inr st1"
    by auto
  with q show ?thesis by blast
qed

text \<open>
  C3, as amended. Every sweep ends with the renormalization of every row, whatever the
  targets, and the \<open>Q\<close> that \<^verbatim>\<open>qrake\<close> returns is such a renormalized matrix. A row whose
  shares before the renormalization are finite and not negative, with a positive sum, is
  renormalized to the sum 1 (exactly, as the model does not round), so its deviation
  from 1 is below \<open>1e-9\<close>.
\<close>

theorem rows_renormalized:
  "(sweep gfn wh xmat xmat_wh targets msk st = Inr st' \<longrightarrow>
      (\<exists>Q1. areas_loop gfn xmat_wh targets msk (Q st) [0..<fst (shape targets)] = Inr Q1 \<and>
            Q st' = renormalize Q1)) \<and>
   (qrake pinv solver Q0 wh xmat targets method maxiter_arg drops obj = Inr stf \<longrightarrow>
      (\<exists>Q1. Q stf = renormalize Q1)) \<and>
   (i < length A \<and> list_all nonneg_finite (A ! i) \<and> fsum (A ! i) = Fin s \<and> 0 < s \<longrightarrow>
      fsum (renormalize A ! i) = Fin 1 \<and>
      flt (fabs (fsub (fsum (renormalize A ! i)) (Fin 1))) (Fin (1 / 10 ^ 9)))"
proof -
  have a: "\<exists>Q1. areas_loop gfn xmat_wh targets msk (Q st) [0..<fst (shape targets)] = Inr Q1 \<and>
            Q st' = renormalize Q1"
    if "sweep gfn wh xmat xmat_wh targets msk st = Inr st'"
    using that by (rule sweep_renormalizes)
  have b: "\<exists>Q1. Q stf = renormalize Q1"
    if "qrake pinv solver Q0 wh xmat targets method maxiter_arg drops obj = Inr stf"
    using qrake_returns_swept [OF that] sweep_renormalizes by metis
  have c: "fsum (renormalize A ! i) = Fin 1 \<and>
      flt (fabs (fsub (fsum (renormalize A ! i)) (Fin 1))) (Fin (1 / 10 ^ 9))"
    if "i < length A \<and> list_all nonneg_finite (A ! i) \<and> fsum (A ! i) = Fin s \<and> 0 < s"
  proof -
    from that have r: "list_all nonneg_finite (A ! i)" "fsum (A ! i) = Fin s" "0 < s"
      and i: "i < length A" by simp_all
    from i have "renormalize A ! i = map (\<lambda>x. fdiv x (fsum (A ! i))) (A ! i)"
      by (simp add: renormalize_def)
    with renormalize_row [OF r] have "fsum (renormalize A ! i) = Fin 1"
      by (simp only:)
    then show ?thesis
      by (simp add: fsub_def ovf_Fin)
  qed
  from a b c show ?thesis by blast
qed

text \<open>
  A record with the share 0 in its only area: the adjustment of \<^verbatim>\<open>rake\<close> is \<open>[nan]\<close>, the
  identity replaces it, and the renormalization divides 0 by 0.
\<close>

lemma sweep_zero_share:
  "sweep (rake pinv1) [Fin 1] [[Fin 1]] [[Fin 1]] [[Fin 1]] [[True]]
     \<lparr>Q = [[Fin 0]], max_weight_absdiff = a, max_targ_abspctdiff = b, iter = 1,
      abspctdiff = None, printed = []\<rparr> =
   Inr \<lparr>Q = [[NaN]], max_weight_absdiff = Fin 1, max_targ_abspctdiff = NaN, iter = 2,
        abspctdiff = Some [[NaN]], printed = []\<rparr>"
proof -
  have g: "area_g (rake pinv1) [[Fin 1]] [[Fin 1]] [[True]] [[Fin 0]] 0 = Inr (Some [NaN])"
    by (simp add: area_g_def select_def col_def rake_zero_weight)
  have a: "areas_loop (rake pinv1) [[Fin 1]] [[Fin 1]] [[True]] [[Fin 0]] [0] = Inr [[Fin 0]]"
    by (simp add: area_update_def g col_times_def set_col_def col_def ovf_Fin)
  show ?thesis
    by (simp add: sweep_defs a del: areas_loop.simps)
qed

theorem rows_renormalized_counterexample:
  "sweep (rake pinv1) [Fin 1] [[Fin 1]] [[Fin 1]] [[Fin 1]] [[True]]
     \<lparr>Q = [[Fin 0]], max_weight_absdiff = Fin (10 ^ 9), max_targ_abspctdiff = Fin (10 ^ 9),
      iter = 1, abspctdiff = None, printed = []\<rparr> =
   Inr \<lparr>Q = [[NaN]], max_weight_absdiff = Fin 1, max_targ_abspctdiff = NaN, iter = 2,
        abspctdiff = Some [[NaN]], printed = []\<rparr> \<and>
   \<not> flt (fabs (fsub (fsum ([[NaN]] ! 0)) (Fin 1))) (Fin (1 / 10 ^ 9))"
  using sweep_zero_share by (simp add: fsum_def fsub_def del: power_numeral)

theorem rows_renormalized_witness:
  "(\<exists>Q1. areas_loop (rake pinv1) [[Fin 0]] [[Fin 0]] [[True]] [[Fin 1]] [0..<fst (shape [[Fin 0]])] =
           Inr Q1 \<and> [[Fin 1]] = renormalize Q1) \<and>
   (\<exists>Q1. [[Fin 1]] = renormalize Q1) \<and>
   fsum (renormalize [[Fin (1/2), Fin (1/2)]] ! 0) = Fin 1 \<and>
   flt (fabs (fsub (fsum (renormalize [[Fin (1/2), Fin (1/2)]] ! 0)) (Fin 1))) (Fin (1 / 10 ^ 9))"
proof -
  let ?S = "\<lambda>(X::mat) (t::vec) (w::vec) (ob::objective). (Inr w :: error + vec)"
  let ?st = "\<lparr>Q = [[Fin 1]], max_weight_absdiff = Fin (10 ^ 9), max_targ_abspctdiff = Fin (10 ^ 9),
      iter = 1, abspctdiff = None, printed = []\<rparr>"
  let ?st' = "\<lparr>Q = [[Fin 1]], max_weight_absdiff = Fin 0, max_targ_abspctdiff = NaN, iter = 2,
        abspctdiff = Some [[NaN]], printed = []\<rparr>"
  note T = rows_renormalized [of "rake pinv1" "[Fin 1]" "[[Fin 0]]" "[[Fin 0]]" "[[Fin 0]]" "[[True]]"
      ?st ?st' pinv1 ?S "[[Fin 1]]" None None None None ?st' 0 "[[Fin (1/2), Fin (1/2)]]" 1]
  have 1: "\<exists>Q1. areas_loop (rake pinv1) [[Fin 0]] [[Fin 0]] [[True]] (Q ?st) [0..<fst (shape [[Fin 0]])] =
           Inr Q1 \<and> Q ?st' = renormalize Q1"
    by (rule T [THEN conjunct1, THEN mp]) (rule sweep_zero_target)
  have 2: "\<exists>Q1. Q ?st' = renormalize Q1"
    by (rule T [THEN conjunct2, THEN conjunct1, THEN mp]) (rule run_zero_target)
  have 3: "fsum (renormalize [[Fin (1/2), Fin (1/2)]] ! 0) = Fin 1 \<and>
   flt (fabs (fsub (fsum (renormalize [[Fin (1/2), Fin (1/2)]] ! 0)) (Fin 1))) (Fin (1 / 10 ^ 9))"
    by (rule T [THEN conjunct2, THEN conjunct2, THEN mp])
       (simp add: nonneg_finite_def fsum_def ovf_Fin)
  from 1 2 3 show ?thesis unfolding qstate.select_convs by blast
qed

section \<open>The exit of the outer loop\<close>

lemma foldl_update_length: "length (foldl (\<lambda>rw c. rw[c := False]) r cs) = length r"
  by (induction cs arbitrary: r) simp_all

lemma norm_index_less: "norm_index n i = Inr j \<Longrightarrow> j < n"
  by (auto simp: norm_index_def Let_def split: if_splits)

lemma mask_assign_shape:
  assumes "mask_assign msk row cols = Inr msk'" and "has_shape msk m k"
  shows "has_shape msk' m k"
proof -
  from assms(1) obtain r cs where r: "norm_index (fst (shape msk)) row = Inr r"
    and m': "msk' = msk[r := foldl (\<lambda>rw c. rw[c := False]) (msk ! r) cs]"
    by (auto simp: mask_assign_def split: sum.splits)
  from r have "r < length msk"
    using norm_index_less by (fastforce simp: shape_def)
  with assms(2) have "length (msk ! r) = k"
    by (simp add: has_shape_def list_all_length)
  with assms(2) show ?thesis
    unfolding m' has_shape_def list_all_iff
    by (auto simp: foldl_update_length dest!: set_update_subset_insert [THEN subsetD])
qed

lemma mask_drops_shape:
  "mask_drops msk items = Inr msk' \<Longrightarrow> has_shape msk m k \<Longrightarrow> has_shape msk' m k"
proof (induction msk items rule: mask_drops.induct)
  case (1 msk)
  then show ?case by simp
next
  case (2 msk row cols items)
  then show ?case
    by (auto split: sum.splits dest: mask_assign_shape)
qed

lemma get_mask_shape:
  "get_mask targets drops = Inr msk \<Longrightarrow> has_shape msk (fst (shape targets)) (snd (shape targets))"
proof -
  have "has_shape (replicate (fst (shape targets)) (replicate (snd (shape targets)) True))
          (fst (shape targets)) (snd (shape targets))"
    by (simp add: has_shape_def list_all_iff)
  then show "get_mask targets drops = Inr msk \<Longrightarrow> ?thesis"
    by (auto simp: get_mask_def Let_def split: option.splits dest: mask_drops_shape)
qed

lemma masked_cells:
  assumes "has_shape msk (fst (shape targets)) (snd (shape targets))"
  shows "set (select (concat (abspctdiff_of A wh xmat targets)) (concat msk)) =
           {pct_cell A wh xmat targets j c | j c.
              j < fst (shape targets) \<and> c < snd (shape targets) \<and> msk ! j ! c}"
proof -
  let ?a = "abspctdiff_of A wh xmat targets"
  from assms have l: "length msk = fst (shape targets)"
    and r: "\<And>j. j < fst (shape targets) \<Longrightarrow> length (msk ! j) = snd (shape targets)"
    by (simp_all add: has_shape_def list_all_length)
  have "list_all2 (\<lambda>r b. length r = length b) ?a msk"
    by (simp add: list_all2_conv_all_nth abspctdiff_of_shape l r)
  then have "set (select (concat ?a) (concat msk)) =
       {?a ! j ! c | j c. j < length ?a \<and> c < length (?a ! j) \<and> msk ! j ! c}"
    by (rule set_select_concat)
  also have "\<dots> = {pct_cell A wh xmat targets j c | j c.
              j < fst (shape targets) \<and> c < snd (shape targets) \<and> msk ! j ! c}"
    by (auto simp: abspctdiff_of_shape) (metis abspctdiff_of_shape(2,3))+
  finally show ?thesis .
qed

text \<open>
  One record, one area, and the target met from the start: \<^verbatim>\<open>rake\<close> converges in its
  first iteration, and both metrics of the sweep are 0.
\<close>

lemma rake_exact: "rake pinv1 [[Fin 1]] [Fin 1] [Fin 1] = Inr (Some [Fin 1])"
proof -
  have w: "weights [[Fin 1]] [Fin 1] [Fin 0] (Fin 1) = [Fin 1]"
    by (simp add: np_defs ovf_Fin)
  have "rake pinv1 [[Fin 1]] [Fin 1] [Fin 1] =
        rake_loop pinv1 [[Fin 1]] [Fin 1] [Fin 1] (Fin 1) max_iter 0 [Fin 0] [Fin 1] (Some [Fin 1])"
    by (simp add: rake_def Let_def w shape_def)
  also have "\<dots> = Inr (Some [Fin 1])"
    unfolding max_iter_Suc
    by (simp add: np_defs phiprim_of_def residual_def col_def fsub_def EPS1_def ovf_Fin)
  finally show ?thesis .
qed

lemma sweep_exact:
  "sweep (rake pinv1) [Fin 1] [[Fin 1]] [[Fin 1]] [[Fin 1]] [[True]]
     \<lparr>Q = [[Fin 1]], max_weight_absdiff = a, max_targ_abspctdiff = b, iter = 1,
      abspctdiff = None, printed = []\<rparr> =
   Inr \<lparr>Q = [[Fin 1]], max_weight_absdiff = Fin 0, max_targ_abspctdiff = Fin 0, iter = 2,
        abspctdiff = Some [[Fin 0]], printed = []\<rparr>"
proof -
  have g: "area_g (rake pinv1) [[Fin 1]] [[Fin 1]] [[True]] [[Fin 1]] 0 = Inr (Some [Fin 1])"
    by (simp add: area_g_def select_def col_def rake_exact)
  have a: "areas_loop (rake pinv1) [[Fin 1]] [[Fin 1]] [[True]] [[Fin 1]] [0] = Inr [[Fin 1]]"
    by (simp add: area_update_def g col_times_def set_col_def col_def ovf_Fin)
  show ?thesis
    by (simp add: sweep_defs a del: areas_loop.simps)
qed

text \<open>
  C2, as amended. The loop has entered its body at the state \<open>st\<close>, and the sweep has
  given \<open>st'\<close> within the cap. Then the loop returns \<open>st'\<close>, its converged exit, exactly
  when neither metric exceeds its tolerance; for metrics that are not \<open>nan\<close> this is
  \<open>max_weight_absdiff \<le> 0.0005\<close> and \<open>max_targ_abspctdiff \<le> 0.1\<close>, while a \<open>nan\<close> metric
  exceeds nothing. \<open>max_weight_absdiff\<close> is the largest row-sum deviation of the matrix
  \<open>Q1\<close> that the areas have left, before the renormalization (or the tolerance itself,
  when a deviation is infinite), and \<open>max_targ_abspctdiff\<close> is the largest percent
  difference of the renormalized matrix over the cells that the mask keeps.
\<close>

theorem converged_exit:
  assumes sw: "sweep gfn wh xmat xmat_wh targets msk st = Inr st'"
      and gm: "get_mask targets drops = Inr msk"
      and it: "iter st' \<le> maxiter"
      and en: "continues maxiter st"
  shows "\<exists>Q1. areas_loop gfn xmat_wh targets msk (Q st) [0..<fst (shape targets)] = Inr Q1 \<and>
           Q st' = renormalize Q1 \<and>
           (qrake_loop gfn wh xmat xmat_wh targets msk maxiter st = Inr st') =
             (\<not> fgt (max_weight_absdiff st') TOL_WTDIFF \<and>
              \<not> fgt (max_targ_abspctdiff st') TOL_TARGPCTDIFF) \<and>
           (\<not> isnan (max_weight_absdiff st') \<and> \<not> isnan (max_targ_abspctdiff st') \<longrightarrow>
              (qrake_loop gfn wh xmat xmat_wh targets msk maxiter st = Inr st') =
                (fle (max_weight_absdiff st') TOL_WTDIFF \<and>
                 fle (max_targ_abspctdiff st') TOL_TARGPCTDIFF)) \<and>
           (list_ex isinf (abswtdiff_of Q1) \<longrightarrow> max_weight_absdiff st' = TOL_WTDIFF) \<and>
           (\<not> list_ex isinf (abswtdiff_of Q1) \<and> \<not> isnan (max_weight_absdiff st') \<longrightarrow>
              is_max (max_weight_absdiff st') (abswtdiff_of Q1)) \<and>
           (\<not> isnan (max_targ_abspctdiff st') \<longrightarrow>
              (\<exists>j c. j < fst (shape targets) \<and> c < snd (shape targets) \<and> msk ! j ! c \<and>
                     max_targ_abspctdiff st' = pct_cell (renormalize Q1) wh xmat targets j c) \<and>
              (\<forall>j c. j < fst (shape targets) \<and> c < snd (shape targets) \<and> msk ! j ! c \<longrightarrow>
                     fle (pct_cell (renormalize Q1) wh xmat targets j c)
                       (max_targ_abspctdiff st')))"
proof -
  let ?mw = "max_weight_absdiff st'" and ?mt = "max_targ_abspctdiff st'"
  from sw obtain Q1 mw0 where
    a: "areas_loop gfn xmat_wh targets msk (Q st) [0..<fst (shape targets)] = Inr Q1" and
    m: "np_max (abswtdiff_of Q1) = Inr mw0" and
    q: "Q st' = renormalize Q1" and
    w: "?mw = (if list_ex isinf (abswtdiff_of Q1) then TOL_WTDIFF else mw0)" and
    t: "np_max (select (concat (abspctdiff_of (renormalize Q1) wh xmat targets)) (concat msk)) =
          Inr ?mt"
    by (auto simp: sweep_def Let_def split: sum.splits)
  have "qrake_loop gfn wh xmat xmat_wh targets msk maxiter st =
        qrake_loop gfn wh xmat xmat_wh targets msk maxiter st'"
    using en sw by (rule qrake_loop_step)
  then have ex: "(qrake_loop gfn wh xmat xmat_wh targets msk maxiter st = Inr st') =
                 (\<not> continues maxiter st')"
    by (simp only: qrake_loop_exit)
  have c1: "(qrake_loop gfn wh xmat xmat_wh targets msk maxiter st = Inr st') =
            (\<not> fgt ?mw TOL_WTDIFF \<and> \<not> fgt ?mt TOL_TARGPCTDIFF)"
    unfolding ex using it by (simp add: continues_def)
  have c2: "(qrake_loop gfn wh xmat xmat_wh targets msk maxiter st = Inr st') =
            (fle ?mw TOL_WTDIFF \<and> fle ?mt TOL_TARGPCTDIFF)"
    if "\<not> isnan ?mw \<and> \<not> isnan ?mt"
    unfolding c1 using that by (simp add: not_fgt_fle TOL_WTDIFF_def TOL_TARGPCTDIFF_def)
  have c3: "?mw = TOL_WTDIFF" if "list_ex isinf (abswtdiff_of Q1)"
    using that w by simp
  have c4: "is_max ?mw (abswtdiff_of Q1)"
    if "\<not> list_ex isinf (abswtdiff_of Q1) \<and> \<not> isnan ?mw"
  proof -
    from that have ni: "\<not> list_ex isinf (abswtdiff_of Q1)" and nn: "\<not> isnan ?mw"
      by blast+
    from w ni have e: "?mw = mw0" by simp
    with nn have "\<not> isnan mw0" by simp
    with np_max_is_max [OF m] e show ?thesis by simp
  qed
  have c5: "(\<exists>j c. j < fst (shape targets) \<and> c < snd (shape targets) \<and> msk ! j ! c \<and>
                     ?mt = pct_cell (renormalize Q1) wh xmat targets j c) \<and>
            (\<forall>j c. j < fst (shape targets) \<and> c < snd (shape targets) \<and> msk ! j ! c \<longrightarrow>
                     fle (pct_cell (renormalize Q1) wh xmat targets j c) ?mt)"
    if n: "\<not> isnan ?mt"
  proof -
    let ?cells = "select (concat (abspctdiff_of (renormalize Q1) wh xmat targets)) (concat msk)"
    from np_max_is_max [OF t n] have i: "?mt \<in> set ?cells" and u: "\<forall>x\<in>set ?cells. fle x ?mt"
      by (simp_all add: is_max_def list_all_iff)
    note mc = masked_cells [OF get_mask_shape [OF gm], of "renormalize Q1" wh xmat]
    from i u show ?thesis unfolding mc by blast
  qed
  from a q c1 c2 c3 c4 c5 show ?thesis by blast
qed

text \<open>
  The run whose target is 0 and met: its metric \<open>0 / 0\<close> is \<open>nan\<close>, the loop takes the
  converged exit after one sweep, and \<open>max_targ_abspctdiff \<le> 0.1\<close> does not hold.
\<close>

theorem converged_exit_counterexample:
  "qrake pinv1 (\<lambda>X t w ob. Inr w) [[Fin 1]] [Fin 1] [[Fin 0]] [[Fin 0]] None None None None =
     Inr \<lparr>Q = [[Fin 1]], max_weight_absdiff = Fin 0, max_targ_abspctdiff = NaN, iter = 2,
          abspctdiff = Some [[NaN]], printed = []\<rparr> \<and>
   \<not> continues 200 \<lparr>Q = [[Fin 1]], max_weight_absdiff = Fin 0, max_targ_abspctdiff = NaN,
                     iter = 2, abspctdiff = Some [[NaN]], printed = []\<rparr> \<and>
   \<not> fle NaN TOL_TARGPCTDIFF"
  using run_zero_target by (simp add: continues_def fgt_def TOL_WTDIFF_def TOL_TARGPCTDIFF_def)

theorem converged_exit_witness:
  "sweep (rake pinv1) [Fin 1] [[Fin 1]] [[Fin 1]] [[Fin 1]] [[True]] \<lparr>Q = [[Fin 1]], max_weight_absdiff = Fin (10 ^ 9), max_targ_abspctdiff = Fin (10 ^ 9), iter = 1, abspctdiff = None, printed = []\<rparr> =
     Inr \<lparr>Q = [[Fin 1]], max_weight_absdiff = Fin 0, max_targ_abspctdiff = Fin 0, iter = 2, abspctdiff = Some [[Fin 0]], printed = []\<rparr> \<and>
   get_mask [[Fin 1]] None = Inr [[True]] \<and>
   iter \<lparr>Q = [[Fin 1]], max_weight_absdiff = Fin 0, max_targ_abspctdiff = Fin 0, iter = 2, abspctdiff = Some [[Fin 0]], printed = []\<rparr> \<le> 200 \<and>
   continues 200 \<lparr>Q = [[Fin 1]], max_weight_absdiff = Fin (10 ^ 9), max_targ_abspctdiff = Fin (10 ^ 9), iter = 1, abspctdiff = None, printed = []\<rparr> \<and>
   qrake_loop (rake pinv1) [Fin 1] [[Fin 1]] [[Fin 1]] [[Fin 1]] [[True]] 200 \<lparr>Q = [[Fin 1]], max_weight_absdiff = Fin (10 ^ 9), max_targ_abspctdiff = Fin (10 ^ 9), iter = 1, abspctdiff = None, printed = []\<rparr> =
     Inr \<lparr>Q = [[Fin 1]], max_weight_absdiff = Fin 0, max_targ_abspctdiff = Fin 0, iter = 2, abspctdiff = Some [[Fin 0]], printed = []\<rparr> \<and>
   (\<exists>Q1. areas_loop (rake pinv1) [[Fin 1]] [[Fin 1]] [[True]] (Q \<lparr>Q = [[Fin 1]], max_weight_absdiff = Fin (10 ^ 9), max_targ_abspctdiff = Fin (10 ^ 9), iter = 1, abspctdiff = None, printed = []\<rparr>) [0..<fst (shape [[Fin 1 :: npfloat]])] = Inr Q1 \<and>
           Q \<lparr>Q = [[Fin 1]], max_weight_absdiff = Fin 0, max_targ_abspctdiff = Fin 0, iter = 2, abspctdiff = Some [[Fin 0]], printed = []\<rparr> = renormalize Q1 \<and>
           (qrake_loop (rake pinv1) [Fin 1] [[Fin 1]] [[Fin 1]] [[Fin 1]] [[True]] 200 \<lparr>Q = [[Fin 1]], max_weight_absdiff = Fin (10 ^ 9), max_targ_abspctdiff = Fin (10 ^ 9), iter = 1, abspctdiff = None, printed = []\<rparr> = Inr \<lparr>Q = [[Fin 1]], max_weight_absdiff = Fin 0, max_targ_abspctdiff = Fin 0, iter = 2, abspctdiff = Some [[Fin 0]], printed = []\<rparr>) =
             (\<not> fgt (max_weight_absdiff \<lparr>Q = [[Fin 1]], max_weight_absdiff = Fin 0, max_targ_abspctdiff = Fin 0, iter = 2, abspctdiff = Some [[Fin 0]], printed = []\<rparr>) TOL_WTDIFF \<and>
              \<not> fgt (max_targ_abspctdiff \<lparr>Q = [[Fin 1]], max_weight_absdiff = Fin 0, max_targ_abspctdiff = Fin 0, iter = 2, abspctdiff = Some [[Fin 0]], printed = []\<rparr>) TOL_TARGPCTDIFF) \<and>
           (\<not> isnan (max_weight_absdiff \<lparr>Q = [[Fin 1]], max_weight_absdiff = Fin 0, max_targ_abspctdiff = Fin 0, iter = 2, abspctdiff = Some [[Fin 0]], printed = []\<rparr>) \<and> \<not> isnan (max_targ_abspctdiff \<lparr>Q = [[Fin 1]], max_weight_absdiff = Fin 0, max_targ_abspctdiff = Fin 0, iter = 2, abspctdiff = Some [[Fin 0]], printed = []\<rparr>) \<longrightarrow>
              (qrake_loop (rake pinv1) [Fin 1] [[Fin 1]] [[Fin 1]] [[Fin 1]] [[True]] 200 \<lparr>Q = [[Fin 1]], max_weight_absdiff = Fin (10 ^ 9), max_targ_abspctdiff = Fin (10 ^ 9), iter = 1, abspctdiff = None, printed = []\<rparr> = Inr \<lparr>Q = [[Fin 1]], max_weight_absdiff = Fin 0, max_targ_abspctdiff = Fin 0, iter = 2, abspctdiff = Some [[Fin 0]], printed = []\<rparr>) =
                (fle (max_weight_absdiff \<lparr>Q = [[Fin 1]], max_weight_absdiff = Fin 0, max_targ_abspctdiff = Fin 0, iter = 2, abspctdiff = Some [[Fin 0]], printed = []\<rparr>) TOL_WTDIFF \<and>
                 fle (max_targ_abspctdiff \<lparr>Q = [[Fin 1]], max_weight_absdiff = Fin 0, max_targ_abspctdiff = Fin 0, iter = 2, abspctdiff = Some [[Fin 0]], printed = []\<rparr>) TOL_TARGPCTDIFF)) \<and>
           (list_ex isinf (abswtdiff_of Q1) \<longrightarrow> max_weight_absdiff \<lparr>Q = [[Fin 1]], max_weight_absdiff = Fin 0, max_targ_abspctdiff = Fin 0, iter = 2, abspctdiff = Some [[Fin 0]], printed = []\<rparr> = TOL_WTDIFF) \<and>
           (\<not> list_ex isinf (abswtdiff_of Q1) \<and> \<not> isnan (max_weight_absdiff \<lparr>Q = [[Fin 1]], max_weight_absdiff = Fin 0, max_targ_abspctdiff = Fin 0, iter = 2, abspctdiff = Some [[Fin 0]], printed = []\<rparr>) \<longrightarrow>
              is_max (max_weight_absdiff \<lparr>Q = [[Fin 1]], max_weight_absdiff = Fin 0, max_targ_abspctdiff = Fin 0, iter = 2, abspctdiff = Some [[Fin 0]], printed = []\<rparr>) (abswtdiff_of Q1)) \<and>
           (\<not> isnan (max_targ_abspctdiff \<lparr>Q = [[Fin 1]], max_weight_absdiff = Fin 0, max_targ_abspctdiff = Fin 0, iter = 2, abspctdiff = Some [[Fin 0]], printed = []\<rparr>) \<longrightarrow>
              (\<exists>j c. j < fst (shape [[Fin 1 :: npfloat]]) \<and> c < snd (shape [[Fin 1 :: npfloat]]) \<and> [[True]] ! j ! c \<and>
                     max_targ_abspctdiff \<lparr>Q = [[Fin 1]], max_weight_absdiff = Fin 0, max_targ_abspctdiff = Fin 0, iter = 2, abspctdiff = Some [[Fin 0]], printed = []\<rparr> = pct_cell (renormalize Q1) [Fin 1] [[Fin 1]] [[Fin 1]] j c) \<and>
              (\<forall>j c. j < fst (shape [[Fin 1 :: npfloat]]) \<and> c < snd (shape [[Fin 1 :: npfloat]]) \<and> [[True]] ! j ! c \<longrightarrow>
                     fle (pct_cell (renormalize Q1) [Fin 1] [[Fin 1]] [[Fin 1]] j c)
                       (max_targ_abspctdiff \<lparr>Q = [[Fin 1]], max_weight_absdiff = Fin 0, max_targ_abspctdiff = Fin 0, iter = 2, abspctdiff = Some [[Fin 0]], printed = []\<rparr>))))"
proof -
  have s: "sweep (rake pinv1) [Fin 1] [[Fin 1]] [[Fin 1]] [[Fin 1]] [[True]] \<lparr>Q = [[Fin 1]], max_weight_absdiff = Fin (10 ^ 9), max_targ_abspctdiff = Fin (10 ^ 9), iter = 1, abspctdiff = None, printed = []\<rparr> =
     Inr \<lparr>Q = [[Fin 1]], max_weight_absdiff = Fin 0, max_targ_abspctdiff = Fin 0, iter = 2, abspctdiff = Some [[Fin 0]], printed = []\<rparr>"
    by (rule sweep_exact)
  have g: "get_mask [[Fin 1]] None = Inr [[True]]"
    by (simp add: get_mask_def shape_def)
  have i: "iter \<lparr>Q = [[Fin 1]], max_weight_absdiff = Fin 0, max_targ_abspctdiff = Fin 0, iter = 2, abspctdiff = Some [[Fin 0]], printed = []\<rparr> \<le> 200"
    by simp
  have c: "continues 200 \<lparr>Q = [[Fin 1]], max_weight_absdiff = Fin (10 ^ 9), max_targ_abspctdiff = Fin (10 ^ 9), iter = 1, abspctdiff = None, printed = []\<rparr>"
    by (simp add: continues_def fgt_def TOL_WTDIFF_def)
  note T = converged_exit [OF s g i c]
  have l: "qrake_loop (rake pinv1) [Fin 1] [[Fin 1]] [[Fin 1]] [[Fin 1]] [[True]] 200 \<lparr>Q = [[Fin 1]], max_weight_absdiff = Fin (10 ^ 9), max_targ_abspctdiff = Fin (10 ^ 9), iter = 1, abspctdiff = None, printed = []\<rparr> =
     Inr \<lparr>Q = [[Fin 1]], max_weight_absdiff = Fin 0, max_targ_abspctdiff = Fin 0, iter = 2, abspctdiff = Some [[Fin 0]], printed = []\<rparr>"
    using T by (auto simp: fgt_def TOL_WTDIFF_def TOL_TARGPCTDIFF_def)
  from s g i c l T show ?thesis
    by (intro conjI)
qed

section \<open>The arrays of the caller\<close>

text \<open>
  Every write of the run goes to an address that the run has allocated: the objects below
  an address \<open>n\<close> stay as they are while the arrays written are at \<open>n\<close> or above.
\<close>

lemma take_update_ge: "n \<le> a \<Longrightarrow> take n (s[a := x]) = take n s"
  by simp

















lemma with_Q_fields:
  "with_Q a v = b \<Longrightarrow>
     Q b = v \<and> max_weight_absdiff b = max_weight_absdiff a \<and>
     max_targ_abspctdiff b = max_targ_abspctdiff a \<and> iter b = iter a \<and>
     abspctdiff b = abspctdiff a \<and> printed b = printed a"
  by (auto simp: with_Q_def)








end
